theory Spec2Isabelle
  imports Main "HOL-Library.Word" "HOL-Library.Signed_Division" "HOL-Library.Monad_Syntax"
begin

unbundle bit_operations_syntax

chapter \<open>A shallow embedding of the compiler's type system, lexer, IR, IR builder and optimizer\<close>

text \<open>
  The development follows the Go sources: \<^verbatim>\<open>internal/semantic/types/types.go\<close>,
  the lexer (\<^verbatim>\<open>lexer.go\<close>, \<^verbatim>\<open>position.go\<close>), the IR (\<^verbatim>\<open>instructions.go\<close>,
  \<^verbatim>\<open>cfg.go\<close>, \<^verbatim>\<open>builder.go\<close>) and the optimizer (\<^verbatim>\<open>constant_folding.go\<close>,
  \<^verbatim>\<open>dead_code.go\<close>, \<^verbatim>\<open>optimizer.go\<close>).  The first part holds the model, the second
  part the properties proved about it.
\<close>

section \<open>Model: the type system (\<^verbatim>\<open>types.go\<close>)\<close>

text \<open>
  The Go interface \<^verbatim>\<open>Type\<close> has one implementing struct per variant; the type switches
  of the source become pattern matching.  \<^verbatim>\<open>ArrayType.Size\<close> is a Go \<^verbatim>\<open>int\<close>
  (\<open>-1\<close> for a dynamic array), a struct carries its name (empty for an anonymous struct) and
  its ordered fields.
\<close>

datatype ty =
    InvalidType | VoidType | IntType | FloatType | BoolType | StringType | CharType | NilType
  | ArrayType ty int
  | StructType string "(string \<times> ty) list"
  | FunctionType "ty list" ty

text \<open>
  \<^verbatim>\<open>Equals\<close>, method by method.  The two loops (\<^verbatim>\<open>for i, field := range s.Fields\<close> and
  \<^verbatim>\<open>for i, param := range f.Parameters\<close>) walk both slices in step; the source enters them
  only after it has compared the lengths, so the index \<^verbatim>\<open>otherStruct.Fields[i]\<close> is always in
  range and the case of an exhausted second list is never reached.
\<close>

fun Equals :: "ty \<Rightarrow> ty \<Rightarrow> bool"
  and Equals_fields :: "(string \<times> ty) list \<Rightarrow> (string \<times> ty) list \<Rightarrow> bool"
  and Equals_params :: "ty list \<Rightarrow> ty list \<Rightarrow> bool" where
  "Equals InvalidType other = False"
| "Equals VoidType other = (case other of VoidType \<Rightarrow> True | _ \<Rightarrow> False)"
| "Equals IntType other = (case other of IntType \<Rightarrow> True | _ \<Rightarrow> False)"
| "Equals FloatType other = (case other of FloatType \<Rightarrow> True | _ \<Rightarrow> False)"
| "Equals BoolType other = (case other of BoolType \<Rightarrow> True | _ \<Rightarrow> False)"
| "Equals StringType other = (case other of StringType \<Rightarrow> True | _ \<Rightarrow> False)"
| "Equals CharType other = (case other of CharType \<Rightarrow> True | _ \<Rightarrow> False)"
| "Equals NilType other = (case other of NilType \<Rightarrow> True | _ \<Rightarrow> False)"
| "Equals (ArrayType e n) other =
     (case other of ArrayType e' n' \<Rightarrow> n = n' \<and> Equals e e' | _ \<Rightarrow> False)"
| "Equals (StructType nm fs) other =
     (case other of
        StructType nm' fs' \<Rightarrow>
          if nm \<noteq> [] \<and> nm' \<noteq> [] then nm = nm'
          else if length fs \<noteq> length fs' then False
          else Equals_fields fs fs'
      | _ \<Rightarrow> False)"
| "Equals (FunctionType ps r) other =
     (case other of
        FunctionType ps' r' \<Rightarrow>
          if \<not> Equals r r' then False
          else if length ps \<noteq> length ps' then False
          else Equals_params ps ps'
      | _ \<Rightarrow> False)"
| "Equals_fields [] gs = True"
| "Equals_fields (f # fs) gs =
     (case gs of
        [] \<Rightarrow> True
      | g # gs' \<Rightarrow>
          if fst f \<noteq> fst g \<or> \<not> Equals (snd f) (snd g) then False
          else Equals_fields fs gs')"
| "Equals_params [] qs = True"
| "Equals_params (p # ps) qs =
     (case qs of
        [] \<Rightarrow> True
      | q # qs' \<Rightarrow> if \<not> Equals p q then False else Equals_params ps qs')"

text \<open>
  \<^verbatim>\<open>AssignableTo\<close>: \<^verbatim>\<open>InvalidType\<close> and \<^verbatim>\<open>VoidType\<close> return \<^verbatim>\<open>false\<close>, \<^verbatim>\<open>NilType\<close>
  accepts arrays and structs, every other variant delegates to \<^verbatim>\<open>Equals\<close>.
\<close>

fun AssignableTo :: "ty \<Rightarrow> ty \<Rightarrow> bool" where
  "AssignableTo InvalidType other = False"
| "AssignableTo VoidType other = False"
| "AssignableTo NilType other =
     (case other of ArrayType _ _ \<Rightarrow> True | StructType _ _ \<Rightarrow> True | _ \<Rightarrow> False)"
| "AssignableTo t other = Equals t other"

text \<open>
  Two notions used to state the laws.  \<open>contains_invalid t\<close>: the \<^verbatim>\<open>Invalid\<close> type occurs in
  \<open>t\<close> at a place that \<^verbatim>\<open>Equals\<close> inspects, that is anywhere except inside the fields of a
  named struct (\<^verbatim>\<open>Equals\<close> compares named structs by name and never reads their fields).
  \<open>same_naming a b\<close>: wherever \<^verbatim>\<open>Equals\<close> compares a struct of \<open>a\<close> with a struct of \<open>b\<close>,
  both are named or both are anonymous.
\<close>

fun contains_invalid :: "ty \<Rightarrow> bool" where
  "contains_invalid InvalidType = True"
| "contains_invalid (ArrayType e n) = contains_invalid e"
| "contains_invalid (StructType nm fs) = (nm = [] \<and> (\<exists>f \<in> set fs. contains_invalid (snd f)))"
| "contains_invalid (FunctionType ps r) = (contains_invalid r \<or> (\<exists>p \<in> set ps. contains_invalid p))"
| "contains_invalid t = False"

fun same_naming :: "ty \<Rightarrow> ty \<Rightarrow> bool"
  and same_naming_fields :: "(string \<times> ty) list \<Rightarrow> (string \<times> ty) list \<Rightarrow> bool"
  and same_naming_params :: "ty list \<Rightarrow> ty list \<Rightarrow> bool" where
  "same_naming (ArrayType e n) other =
     (case other of ArrayType e' n' \<Rightarrow> same_naming e e' | _ \<Rightarrow> True)"
| "same_naming (StructType nm fs) other =
     (case other of
        StructType nm' fs' \<Rightarrow>
          (nm = []) = (nm' = []) \<and> (nm = [] \<longrightarrow> same_naming_fields fs fs')
      | _ \<Rightarrow> True)"
| "same_naming (FunctionType ps r) other =
     (case other of
        FunctionType ps' r' \<Rightarrow> same_naming r r' \<and> same_naming_params ps ps'
      | _ \<Rightarrow> True)"
| "same_naming t other = True"
| "same_naming_fields [] gs = True"
| "same_naming_fields (f # fs) gs =
     (case gs of
        [] \<Rightarrow> True
      | g # gs' \<Rightarrow> same_naming (snd f) (snd g) \<and> same_naming_fields fs gs')"
| "same_naming_params [] qs = True"
| "same_naming_params (p # ps) qs =
     (case qs of
        [] \<Rightarrow> True
      | q # qs' \<Rightarrow> same_naming p q \<and> same_naming_params ps qs')"

section \<open>Model: IR values and instructions (\<^verbatim>\<open>instructions.go\<close>)\<close>

text \<open>
  A \<^verbatim>\<open>*Value\<close> is compared and used as a map key by address, and no field of a \<^verbatim>\<open>Value\<close> is
  written after its creation.  A value is therefore modelled as the struct together with its
  address \<open>ptr\<close>; the source's pointer comparison \<^verbatim>\<open>a == b\<close> is \<open>ptr a = ptr b\<close>.  The payload
  \<^verbatim>\<open>Constant interface{}\<close> holds what the parser stores in a literal: nothing, an \<^verbatim>\<open>int64\<close>,
  a \<^verbatim>\<open>float64\<close> (kept as its 64 bits), a \<^verbatim>\<open>string\<close>, a \<^verbatim>\<open>bool\<close> or a \<^verbatim>\<open>rune\<close>.
\<close>

datatype value_kind = ValueVariable | ValueTemporary | ValueConstant | ValueParameter

datatype const_payload =
    ConstNone
  | ConstInt "64 word"
  | ConstFloat "64 word"
  | ConstString string
  | ConstBool bool
  | ConstRune "32 word"

record val =
  ptr :: nat
  ID :: int
  Name :: string
  Type :: ty
  Kind :: value_kind
  Constant :: const_payload

definition IsConstant :: "val \<Rightarrow> bool" where
  "IsConstant v = (Kind v = ValueConstant)"

datatype binary_operator =
    OpAdd | OpSub | OpMul | OpDiv | OpMod
  | OpEq | OpNeq | OpLt | OpLe | OpGt | OpGe
  | OpAnd | OpOr
  | OpBitAnd | OpBitOr | OpBitXor | OpShl | OpShr

datatype unary_operator = OpNeg | OpNot | OpBitNot

text \<open>
  Basic blocks are referred to by address (\<^verbatim>\<open>*BasicBlock\<close>) and are mutated in place, so
  they live in a store and instructions hold addresses.  The two operand pointers that the
  source documents as optional (\<^verbatim>\<open>Call.Dest\<close>, \<^verbatim>\<open>Return.Value\<close>) are options; the other
  operand pointers are taken to be non-nil.  Constructor arguments follow the order of the
  struct fields.
\<close>

type_synonym block_ptr = nat

datatype instruction =
    BinaryOp binary_operator val val val
  | UnaryOp unary_operator val val
  | Copy val val
  | Load val val
  | Store val val
  | GetElementPtr val val val
  | GetFieldPtr val val int
  | Jump block_ptr
  | Branch val block_ptr block_ptr
  | Call "val option" val "val list"
  | Return "val option"
  | Phi val "(val \<times> block_ptr) list"
  | Alloca val ty

fun Operands :: "instruction \<Rightarrow> val list" where
  "Operands (BinaryOp op dest left right) = [left, right]"
| "Operands (UnaryOp op dest operand) = [operand]"
| "Operands (Copy dest v) = [v]"
| "Operands (Load dest address) = [address]"
| "Operands (Store address v) = [address, v]"
| "Operands (GetElementPtr dest base index) = [base, index]"
| "Operands (GetFieldPtr dest base fieldIndex) = [base]"
| "Operands (Jump target) = []"
| "Operands (Branch condition trueBlock falseBlock) = [condition]"
| "Operands (Call dest function args) = function # args"
| "Operands (Return v) = (case v of Some x \<Rightarrow> [x] | None \<Rightarrow> [])"
| "Operands (Phi dest incoming) = map fst incoming"
| "Operands (Alloca dest t) = []"

fun Result :: "instruction \<Rightarrow> val option" where
  "Result (BinaryOp op dest left right) = Some dest"
| "Result (UnaryOp op dest operand) = Some dest"
| "Result (Copy dest v) = Some dest"
| "Result (Load dest address) = Some dest"
| "Result (Store address v) = None"
| "Result (GetElementPtr dest base index) = Some dest"
| "Result (GetFieldPtr dest base fieldIndex) = Some dest"
| "Result (Jump target) = None"
| "Result (Branch condition trueBlock falseBlock) = None"
| "Result (Call dest function args) = dest"
| "Result (Return v) = None"
| "Result (Phi dest incoming) = Some dest"
| "Result (Alloca dest t) = Some dest"

section \<open>Model: basic blocks, functions, modules (\<^verbatim>\<open>cfg.go\<close>)\<close>

record basic_block =
  Label :: string
  Instructions :: "instruction list"
  Successors :: "block_ptr list"
  Predecessors :: "block_ptr list"
  Dominated :: "block_ptr list"
  Index :: int

text \<open>
  The store of blocks is a list indexed by address.  An address outside the list stands for
  \<^verbatim>\<open>nil\<close>; dereferencing it is the source's nil-pointer panic, modelled as \<open>None\<close>.
\<close>

type_synonym heap = "basic_block list"

definition load :: "heap \<Rightarrow> block_ptr \<Rightarrow> basic_block option" where
  "load h p = (if p < length h then Some (h ! p) else None)"

record func =
  fn_Name :: string
  Parameters :: "val list"
  ReturnType :: ty
  Blocks :: "block_ptr list"
  Entry :: block_ptr
  Locals :: "val list"
  nextValueID :: int

record ir_module =
  mod_Name :: string
  Functions :: "func list"
  Globals :: "val list"

definition NewBasicBlock :: "string \<Rightarrow> basic_block" where
  "NewBasicBlock label =
     \<lparr>Label = label, Instructions = [], Successors = [], Predecessors = [], Dominated = [],
      Index = 0\<rparr>"

definition AddInstruction :: "heap \<Rightarrow> block_ptr \<Rightarrow> instruction \<Rightarrow> heap option" where
  "AddInstruction h bb instr =
     (if bb < length h
      then Some (h[bb := (h ! bb)\<lparr>Instructions := Instructions (h ! bb) @ [instr]\<rparr>])
      else None)"

text \<open>
  \<^verbatim>\<open>AddSuccessor\<close>: return at the first successor equal to \<^verbatim>\<open>succ\<close>; otherwise append
  \<^verbatim>\<open>succ\<close> to \<^verbatim>\<open>bb.Successors\<close>, then \<^verbatim>\<open>bb\<close> to \<^verbatim>\<open>succ.Predecessors\<close>.  The second
  write reads the store left by the first one, so \<^verbatim>\<open>bb == succ\<close> is covered.
\<close>

definition AddSuccessor :: "heap \<Rightarrow> block_ptr \<Rightarrow> block_ptr \<Rightarrow> heap option" where
  "AddSuccessor h bb succ =
     (if \<not> bb < length h then None
      else if succ \<in> set (Successors (h ! bb)) then Some h
      else if \<not> succ < length h then None
      else
        let h1 = h[bb := (h ! bb)\<lparr>Successors := Successors (h ! bb) @ [succ]\<rparr>]
        in Some (h1[succ := (h1 ! succ)\<lparr>Predecessors := Predecessors (h1 ! succ) @ [bb]\<rparr>]))"

definition is_terminator :: "instruction \<Rightarrow> bool" where
  "is_terminator i = (case i of Jump _ \<Rightarrow> True | Branch _ _ _ \<Rightarrow> True | Return _ \<Rightarrow> True
                      | _ \<Rightarrow> False)"

definition Terminator :: "basic_block \<Rightarrow> instruction option" where
  "Terminator bb =
     (if length (Instructions bb) = 0 then None
      else let l = last (Instructions bb) in if is_terminator l then Some l else None)"

definition IsTerminated :: "basic_block \<Rightarrow> bool" where
  "IsTerminated bb = (Terminator bb \<noteq> None)"

text \<open>
  \<^verbatim>\<open>NewFunction\<close> allocates the entry block; \<^verbatim>\<open>NewBasicBlockInFunc\<close> allocates a block,
  sets its index to the current number of blocks and appends it to the function.  Both
  return the extended store; the new address is the old length of the store.
\<close>

definition NewFunction :: "heap \<Rightarrow> string \<Rightarrow> val list \<Rightarrow> ty \<Rightarrow> heap \<times> func" where
  "NewFunction h name params returnType =
     (h @ [NewBasicBlock ''entry''],
      \<lparr>fn_Name = name, Parameters = params, ReturnType = returnType, Blocks = [length h],
       Entry = length h, Locals = [], nextValueID = int (length params)\<rparr>)"

definition NewBasicBlockInFunc :: "heap \<Rightarrow> func \<Rightarrow> string \<Rightarrow> heap \<times> func \<times> block_ptr" where
  "NewBasicBlockInFunc h f label =
     (h @ [(NewBasicBlock label)\<lparr>Index := int (length (Blocks f))\<rparr>],
      f\<lparr>Blocks := Blocks f @ [length h]\<rparr>,
      length h)"

text \<open>
  \<^verbatim>\<open>Module.Verify\<close>.  The two failures it can report are kept apart by a datatype; the
  arguments are the strings the source formats into the message.  The inner loop visits
  the blocks of a function in order, the outer loop the functions.
\<close>

datatype verify_error =
    NoTerminator string string
  | EntryHasPredecessors string

fun verify_blocks :: "heap \<Rightarrow> string \<Rightarrow> block_ptr list \<Rightarrow> verify_error list \<Rightarrow> verify_error list option"
  where
  "verify_blocks h fname [] errors = Some errors"
| "verify_blocks h fname (block # rest) errors =
     (case load h block of
        None \<Rightarrow> None
      | Some bb \<Rightarrow>
          verify_blocks h fname rest
            (if \<not> IsTerminated bb then errors @ [NoTerminator (Label bb) fname] else errors))"

fun verify_functions :: "heap \<Rightarrow> func list \<Rightarrow> verify_error list \<Rightarrow> verify_error list option" where
  "verify_functions h [] errors = Some errors"
| "verify_functions h (fn # rest) errors =
     (case verify_blocks h (fn_Name fn) (Blocks fn) errors of
        None \<Rightarrow> None
      | Some errors1 \<Rightarrow>
          (case load h (Entry fn) of
             None \<Rightarrow> None
           | Some entry \<Rightarrow>
               verify_functions h rest
                 (if length (Predecessors entry) > 0
                  then errors1 @ [EntryHasPredecessors (fn_Name fn)] else errors1)))"

definition Verify :: "heap \<Rightarrow> ir_module \<Rightarrow> verify_error list option" where
  "Verify h m = verify_functions h (Functions m) []"

text \<open>
  The checks that the specification lists for the verifier and that \<^verbatim>\<open>Verify\<close> has no code
  for, written from the specification's words so that the two can be compared: the
  successors of a block are the targets of its terminator; a non-entry block has a
  predecessor; the incoming blocks of a \<^verbatim>\<open>Phi\<close> are the predecessors of its block; a
  \<^verbatim>\<open>Call\<close> has no destination iff its callee's return type is \<^verbatim>\<open>Void\<close>.
\<close>

definition spec_terminator_targets :: "instruction \<Rightarrow> block_ptr list" where
  "spec_terminator_targets i =
     (case i of Jump t \<Rightarrow> [t] | Branch c t e \<Rightarrow> [t, e] | _ \<Rightarrow> [])"

definition spec_successors_match :: "basic_block \<Rightarrow> bool" where
  "spec_successors_match bb =
     (case Terminator bb of
        None \<Rightarrow> True
      | Some t \<Rightarrow> set (Successors bb) = set (spec_terminator_targets t))"

definition spec_phi_ok :: "basic_block \<Rightarrow> instruction \<Rightarrow> bool" where
  "spec_phi_ok bb i =
     (case i of Phi dest incoming \<Rightarrow> set (map snd incoming) = set (Predecessors bb)
              \<and> length incoming = length (Predecessors bb)
      | _ \<Rightarrow> True)"

definition spec_call_ok :: "instruction \<Rightarrow> bool" where
  "spec_call_ok i =
     (case i of
        Call dest function args \<Rightarrow>
          (case Type function of
             FunctionType ps r \<Rightarrow> (dest = None) = (r = VoidType)
           | _ \<Rightarrow> True)
      | _ \<Rightarrow> True)"

definition spec_block_ok :: "func \<Rightarrow> block_ptr \<Rightarrow> basic_block \<Rightarrow> bool" where
  "spec_block_ok fn p bb =
     (IsTerminated bb
      \<and> list_all (\<lambda>i. \<not> is_terminator i) (butlast (Instructions bb))
      \<and> spec_successors_match bb
      \<and> (if p = Entry fn then Predecessors bb = [] else Predecessors bb \<noteq> [])
      \<and> list_all (spec_phi_ok bb) (Instructions bb)
      \<and> list_all spec_call_ok (Instructions bb))"

definition spec_module_ok :: "heap \<Rightarrow> ir_module \<Rightarrow> bool" where
  "spec_module_ok h m =
     list_all (\<lambda>fn. Entry fn < length h
                 \<and> list_all (\<lambda>p. p < length h \<and> spec_block_ok fn p (h ! p)) (Blocks fn))
       (Functions m)"

text \<open>
  The state reached through the API: blocks are created by \<^verbatim>\<open>NewBasicBlock\<close> and linked
  only by \<^verbatim>\<open>AddSuccessor\<close>.  \<open>cfg_consistent\<close> says that the successor and predecessor lists
  of the store are duplicate-free and mirror each other.
\<close>

definition cfg_consistent :: "heap \<Rightarrow> bool" where
  "cfg_consistent h =
     (\<forall>b < length h.
        distinct (Successors (h ! b)) \<and> distinct (Predecessors (h ! b))
        \<and> (\<forall>s \<in> set (Successors (h ! b)). s < length h \<and> b \<in> set (Predecessors (h ! s)))
        \<and> (\<forall>p \<in> set (Predecessors (h ! b)). p < length h \<and> b \<in> set (Successors (h ! p))))"

fun AddSuccessor_times :: "nat \<Rightarrow> heap \<Rightarrow> block_ptr \<Rightarrow> block_ptr \<Rightarrow> heap option" where
  "AddSuccessor_times 0 h bb succ = Some h"
| "AddSuccessor_times (Suc n) h bb succ =
     (case AddSuccessor h bb succ of
        None \<Rightarrow> None
      | Some h' \<Rightarrow> AddSuccessor_times n h' bb succ)"

section \<open>Model: constant folding (\<^verbatim>\<open>constant_folding.go\<close>)\<close>

text \<open>
  The map \<^verbatim>\<open>map[*ir.Value]interface{}\<close> is keyed by the address of a value.  Every
  successful fold allocates one new constant \<^verbatim>\<open>Value\<close>; its address is the argument \<open>a\<close>,
  supplied by the caller from a counter of fresh addresses.  Go's \<^verbatim>\<open>int64\<close> arithmetic wraps
  around; \<^verbatim>\<open>/\<close> and \<^verbatim>\<open>%\<close> truncate towards zero; a shift count is converted with
  \<^verbatim>\<open>uint(rightVal)\<close>, and \<^verbatim>\<open>>>\<close> on \<^verbatim>\<open>int64\<close> is an arithmetic shift.
\<close>

type_synonym constants = "nat \<rightharpoonup> const_payload"

definition getConstantValue :: "val \<Rightarrow> constants \<Rightarrow> const_payload option" where
  "getConstantValue v constants =
     (if IsConstant v then Some (Constant v) else constants (ptr v))"

definition go_div :: "64 word \<Rightarrow> 64 word \<Rightarrow> 64 word" where
  "go_div l r = word_of_int (sint l sdiv sint r)"

definition go_mod :: "64 word \<Rightarrow> 64 word \<Rightarrow> 64 word" where
  "go_mod l r = word_of_int (sint l smod sint r)"

definition int_constant :: "nat \<Rightarrow> 64 word \<Rightarrow> val" where
  "int_constant a result =
     \<lparr>ptr = a, ID = -1, Name = [], Type = IntType, Kind = ValueConstant,
      Constant = ConstInt result\<rparr>"

definition createBoolCopy :: "nat \<Rightarrow> val \<Rightarrow> bool \<Rightarrow> instruction" where
  "createBoolCopy a dest b =
     Copy dest \<lparr>ptr = a, ID = -1, Name = [], Type = BoolType, Kind = ValueConstant,
                Constant = ConstBool b\<rparr>"

definition foldBinaryOpWithConstants ::
  "nat \<Rightarrow> binary_operator \<Rightarrow> val \<Rightarrow> val \<Rightarrow> val \<Rightarrow> constants \<Rightarrow> instruction option" where
  "foldBinaryOpWithConstants a op dest left right constants =
     (case (getConstantValue left constants, getConstantValue right constants) of
        (Some leftConst, Some rightConst) \<Rightarrow>
          (case (leftConst, rightConst) of
             (ConstInt leftVal, ConstInt rightVal) \<Rightarrow>
               (case op of
                  OpAdd \<Rightarrow> Some (Copy dest (int_constant a (leftVal + rightVal)))
                | OpSub \<Rightarrow> Some (Copy dest (int_constant a (leftVal - rightVal)))
                | OpMul \<Rightarrow> Some (Copy dest (int_constant a (leftVal * rightVal)))
                | OpDiv \<Rightarrow>
                    if rightVal = 0 then None
                    else Some (Copy dest (int_constant a (go_div leftVal rightVal)))
                | OpMod \<Rightarrow>
                    if rightVal = 0 then None
                    else Some (Copy dest (int_constant a (go_mod leftVal rightVal)))
                | OpEq \<Rightarrow> Some (createBoolCopy a dest (leftVal = rightVal))
                | OpNeq \<Rightarrow> Some (createBoolCopy a dest (leftVal \<noteq> rightVal))
                | OpLt \<Rightarrow> Some (createBoolCopy a dest (leftVal <s rightVal))
                | OpLe \<Rightarrow> Some (createBoolCopy a dest (leftVal \<le>s rightVal))
                | OpGt \<Rightarrow> Some (createBoolCopy a dest (rightVal <s leftVal))
                | OpGe \<Rightarrow> Some (createBoolCopy a dest (rightVal \<le>s leftVal))
                | OpBitAnd \<Rightarrow> Some (Copy dest (int_constant a (leftVal AND rightVal)))
                | OpBitOr \<Rightarrow> Some (Copy dest (int_constant a (leftVal OR rightVal)))
                | OpBitXor \<Rightarrow> Some (Copy dest (int_constant a (leftVal XOR rightVal)))
                | OpShl \<Rightarrow> Some (Copy dest (int_constant a (push_bit (unat rightVal) leftVal)))
                | OpShr \<Rightarrow>
                    Some (Copy dest (int_constant a (signed_drop_bit (unat rightVal) leftVal)))
                | _ \<Rightarrow> None)
           | _ \<Rightarrow> None)
      | _ \<Rightarrow> None)"

definition foldUnaryOpWithConstants ::
  "nat \<Rightarrow> unary_operator \<Rightarrow> val \<Rightarrow> val \<Rightarrow> constants \<Rightarrow> instruction option" where
  "foldUnaryOpWithConstants a op dest operand constants =
     (case getConstantValue operand constants of
        None \<Rightarrow> None
      | Some operandConst \<Rightarrow>
          (case operandConst of
             ConstInt intVal \<Rightarrow>
               (case op of
                  OpNeg \<Rightarrow> Some (Copy dest (int_constant a (- intVal)))
                | OpBitNot \<Rightarrow> Some (Copy dest (int_constant a (NOT intVal)))
                | _ \<Rightarrow> None)
           | ConstBool boolVal \<Rightarrow>
               (if op = OpNot then Some (createBoolCopy a dest (\<not> boolVal)) else None)
           | _ \<Rightarrow> None))"

definition foldInstructionWithConstants ::
  "nat \<Rightarrow> instruction \<Rightarrow> constants \<Rightarrow> instruction option" where
  "foldInstructionWithConstants a instr constants =
     (case instr of
        BinaryOp op dest left right \<Rightarrow> foldBinaryOpWithConstants a op dest left right constants
      | UnaryOp op dest operand \<Rightarrow> foldUnaryOpWithConstants a op dest operand constants
      | _ \<Rightarrow> None)"

text \<open>
  The step shared by both passes of \<^verbatim>\<open>Run\<close>: a \<^verbatim>\<open>Copy\<close> whose source is a constant
  records the payload under the address of its destination.
\<close>

definition record_constant :: "instruction \<Rightarrow> constants \<Rightarrow> constants" where
  "record_constant instr constants =
     (case instr of
        Copy dest v \<Rightarrow> if IsConstant v then constants(ptr dest \<mapsto> Constant v) else constants
      | _ \<Rightarrow> constants)"


text \<open>
  The second pass over one block: \<open>a\<close> is the next fresh address, advanced at each fold.
\<close>

fun fold_instructions ::
  "nat \<Rightarrow> instruction list \<Rightarrow> constants \<Rightarrow> nat \<times> instruction list \<times> constants" where
  "fold_instructions a [] constants = (a, [], constants)"
| "fold_instructions a (instr # rest) constants =
     (case foldInstructionWithConstants a instr constants of
        None \<Rightarrow>
          (case fold_instructions a rest constants of
             (a', rest', constants') \<Rightarrow> (a', instr # rest', constants'))
      | Some folded \<Rightarrow>
          (case fold_instructions (Suc a) rest (record_constant folded constants) of
             (a', rest', constants') \<Rightarrow> (a', folded # rest', constants')))"



section \<open>Model: dead-code elimination (\<^verbatim>\<open>dead_code.go\<close>)\<close>

definition isCritical :: "instruction \<Rightarrow> bool" where
  "isCritical instr =
     (case instr of
        Store _ _ \<Rightarrow> True
      | Call _ _ _ \<Rightarrow> True
      | Return _ \<Rightarrow> True
      | Branch _ _ _ \<Rightarrow> True
      | Jump _ \<Rightarrow> True
      | _ \<Rightarrow> False)"

text \<open>
  All instructions of a function in block order, as the nested loops
  \<^verbatim>\<open>for _, block := range fn.Blocks { for _, instr := range block.Instructions\<close> visit them;
  \<open>None\<close> when a block address is nil.
\<close>

fun fn_instructions :: "heap \<Rightarrow> block_ptr list \<Rightarrow> instruction list option" where
  "fn_instructions h [] = Some []"
| "fn_instructions h (block # rest) =
     (case load h block of
        None \<Rightarrow> None
      | Some bb \<Rightarrow>
          (case fn_instructions h rest of
             None \<Rightarrow> None
           | Some instrs \<Rightarrow> Some (Instructions bb @ instrs)))"

definition is_def_of :: "val \<Rightarrow> instruction \<Rightarrow> bool" where
  "is_def_of v instr = (case Result instr of None \<Rightarrow> False | Some d \<Rightarrow> ptr d = ptr v)"

definition result_ptrs :: "instruction list \<Rightarrow> nat set" where
  "result_ptrs instrs = {p. \<exists>i \<in> set instrs. \<exists>d. Result i = Some d \<and> ptr d = p}"

lemma finite_result_ptrs: "finite (result_ptrs instrs)"
proof -
  have "result_ptrs instrs \<subseteq> (\<lambda>i. case Result i of Some d \<Rightarrow> ptr d | None \<Rightarrow> 0) ` set instrs"
    by (auto simp: result_ptrs_def image_iff) force
  then show ?thesis by (rule finite_subset) simp
qed

lemma find_def_result_ptrs:
  "find (is_def_of v) instrs = Some i \<Longrightarrow> ptr v \<in> result_ptrs instrs"
  by (auto simp: find_Some_iff is_def_of_def result_ptrs_def split: option.splits)

text \<open>
  \<^verbatim>\<open>markValue\<close>: the set \<open>used\<close> holds the addresses marked so far.  The loops over the
  operands call \<^verbatim>\<open>markValue\<close> one after the other on the same map, which \<open>markValues\<close>
  does.  The search for the defining instruction stops at the first instruction whose result
  is the value.
\<close>

function markValue :: "instruction list \<Rightarrow> val \<Rightarrow> nat set \<Rightarrow> nat set"
  and markValues :: "instruction list \<Rightarrow> val list \<Rightarrow> nat set \<Rightarrow> nat set" where
  "markValue instrs v used =
     (if ptr v \<in> used then used
      else if IsConstant v then used
      else
        (case find (is_def_of v) instrs of
           None \<Rightarrow> insert (ptr v) used
         | Some instr \<Rightarrow> markValues instrs (Operands instr) (insert (ptr v) used)))"
| "markValues instrs [] used = used"
| "markValues instrs (operand # rest) used =
     markValues instrs rest (markValue instrs operand used)"
  by pat_completeness auto

lemma markValue_grows_partial:
  "markValue_markValues_dom (Inl (instrs, v, used)) \<Longrightarrow> used \<subseteq> markValue instrs v used"
  "markValue_markValues_dom (Inr (instrs, vs, used)) \<Longrightarrow> used \<subseteq> markValues instrs vs used"
proof (induction instrs v used and instrs vs used rule: markValue_markValues.pinduct)
  case (1 instrs v used)
  then show ?case
    by (auto simp: markValue.psimps split: option.splits)
next
  case (2 instrs used)
  then show ?case by (simp add: markValues.psimps)
next
  case (3 instrs operand rest used)
  then show ?case by (auto simp: markValues.psimps)
qed

termination markValue
proof (relation "inv_image (less_than <*lex*> less_than)
    (\<lambda>x. case x of
       Inl (instrs, v, used) \<Rightarrow> (card (result_ptrs instrs - used), 0)
     | Inr (instrs, vs, used) \<Rightarrow> (card (result_ptrs instrs - used), Suc (length vs)))")
  show "wf (inv_image (less_than <*lex*> less_than)
    (\<lambda>x. case x of
       Inl (instrs, v, used) \<Rightarrow> (card (result_ptrs instrs - used), 0::nat)
     | Inr (instrs, vs, used) \<Rightarrow> (card (result_ptrs instrs - used), Suc (length vs))))"
    by (intro wf_inv_image wf_lex_prod wf_less_than)
next
  fix instrs v used instr
  assume a: "ptr v \<notin> used" "find (is_def_of v) instrs = Some instr"
  have "ptr v \<in> result_ptrs instrs - used"
    using a find_def_result_ptrs by fastforce
  then have "card (result_ptrs instrs - insert (ptr v) used) < card (result_ptrs instrs - used)"
    using finite_result_ptrs [of instrs]
    by (metis Diff_insert card_Diff1_less finite_Diff)
  then show "(Inr (instrs, Operands instr, insert (ptr v) used), Inl (instrs, v, used))
      \<in> inv_image (less_than <*lex*> less_than)
    (\<lambda>x. case x of
       Inl (instrs, v, used) \<Rightarrow> (card (result_ptrs instrs - used), 0)
     | Inr (instrs, vs, used) \<Rightarrow> (card (result_ptrs instrs - used), Suc (length vs)))"
    by simp
next
  fix instrs operand rest used
  show "(Inl (instrs, operand, used), Inr (instrs, operand # rest, used))
      \<in> inv_image (less_than <*lex*> less_than)
    (\<lambda>x. case x of
       Inl (instrs, v, used) \<Rightarrow> (card (result_ptrs instrs - used), 0)
     | Inr (instrs, vs, used) \<Rightarrow> (card (result_ptrs instrs - used), Suc (length vs)))"
    by simp
next
  fix instrs operand rest used
  assume "markValue_markValues_dom (Inl (instrs, operand, used))"
  then have "used \<subseteq> markValue instrs operand used"
    by (rule markValue_grows_partial)
  then have "card (result_ptrs instrs - markValue instrs operand used)
      \<le> card (result_ptrs instrs - used)"
    using finite_result_ptrs [of instrs] by (intro card_mono) auto
  then show "(Inr (instrs, rest, markValue instrs operand used), Inr (instrs, operand # rest, used))
      \<in> inv_image (less_than <*lex*> less_than)
    (\<lambda>x. case x of
       Inl (instrs, v, used) \<Rightarrow> (card (result_ptrs instrs - used), 0)
     | Inr (instrs, vs, used) \<Rightarrow> (card (result_ptrs instrs - used), Suc (length vs)))"
    by auto
qed

declare markValue.simps [simp del]

text \<open>
  \<^verbatim>\<open>markUsedValues\<close>: every operand of every critical instruction is marked, in block
  order.  A nil block address makes the source panic, in the outer loop at the latest.
\<close>

fun mark_critical :: "instruction list \<Rightarrow> instruction list \<Rightarrow> nat set \<Rightarrow> nat set" where
  "mark_critical instrs [] used = used"
| "mark_critical instrs (instr # rest) used =
     mark_critical instrs rest
       (if isCritical instr then markValues instrs (Operands instr) used else used)"

definition markUsedValues :: "heap \<Rightarrow> func \<Rightarrow> nat set option" where
  "markUsedValues h fn =
     (case fn_instructions h (Blocks fn) of
        None \<Rightarrow> None
      | Some instrs \<Rightarrow> Some (mark_critical instrs instrs {}))"

text \<open>
  \<^verbatim>\<open>removeUnusedInstructions\<close>: an instruction stays if it is critical or if its result is
  non-nil and marked; \<^verbatim>\<open>modified\<close> is set when an instruction is dropped.
\<close>

definition keeps :: "nat set \<Rightarrow> instruction \<Rightarrow> bool" where
  "keeps used instr =
     (isCritical instr \<or> (case Result instr of None \<Rightarrow> False | Some r \<Rightarrow> ptr r \<in> used))"

fun remove_unused_blocks ::
  "heap \<Rightarrow> block_ptr list \<Rightarrow> nat set \<Rightarrow> bool \<Rightarrow> (bool \<times> heap) option" where
  "remove_unused_blocks h [] used modified = Some (modified, h)"
| "remove_unused_blocks h (block # rest) used modified =
     (case load h block of
        None \<Rightarrow> None
      | Some bb \<Rightarrow>
          remove_unused_blocks
            (h[block := bb\<lparr>Instructions := filter (keeps used) (Instructions bb)\<rparr>])
            rest used
            (modified \<or> list_ex (\<lambda>i. \<not> keeps used i) (Instructions bb)))"

definition removeUnusedInstructions :: "heap \<Rightarrow> func \<Rightarrow> nat set \<Rightarrow> (bool \<times> heap) option" where
  "removeUnusedInstructions h fn used = remove_unused_blocks h (Blocks fn) used False"

text \<open>
  \<^verbatim>\<open>removeUnreachableBlocks\<close>.  The stack is a Go slice: the top is its last element, and
  the successors not yet marked are appended.  Reading \<^verbatim>\<open>current.Successors\<close> of a nil block
  is the panic \<open>None\<close>.
\<close>

lemma card_Diff_insert_less:
  "finite A \<Longrightarrow> x \<in> A \<Longrightarrow> x \<notin> B \<Longrightarrow> card (A - insert x B) < card (A - B)"
  by (metis Diff_insert DiffI card_Diff1_less finite_Diff)

function reach :: "heap \<Rightarrow> nat set \<Rightarrow> block_ptr list \<Rightarrow> nat set option" where
  "reach h reachable stack =
     (if stack = [] then Some reachable
      else
        let current = last stack; stack' = butlast stack in
        if current \<in> reachable then reach h reachable stack'
        else if \<not> current < length h then None
        else
          reach h (insert current reachable)
            (stack' @ filter (\<lambda>succ. succ \<notin> insert current reachable)
                        (Successors (h ! current))))"
  by pat_completeness auto
termination
  apply (relation "inv_image (less_than <*lex*> less_than)
    (\<lambda>(h, reachable, stack). (card ({..<length h} - reachable), length stack))")
  subgoal by (intro wf_inv_image wf_lex_prod wf_less_than)
  subgoal by simp
  subgoal premises prems for h reachable stack x xa
    using prems card_Diff_insert_less [of "{..<length h}" "last stack" reachable] by simp
  done

declare reach.simps [simp del]

fun renumber :: "heap \<Rightarrow> block_ptr list \<Rightarrow> int \<Rightarrow> heap option" where
  "renumber h [] i = Some h"
| "renumber h (block # rest) i =
     (case load h block of
        None \<Rightarrow> None
      | Some bb \<Rightarrow> renumber (h[block := bb\<lparr>Index := i\<rparr>]) rest (i + 1))"

definition removeUnreachableBlocks :: "heap \<Rightarrow> func \<Rightarrow> (bool \<times> heap \<times> func) option" where
  "removeUnreachableBlocks h fn =
     (case reach h {} [Entry fn] of
        None \<Rightarrow> None
      | Some reachable \<Rightarrow>
          let newBlocks = filter (\<lambda>block. block \<in> reachable) (Blocks fn);
              modified = list_ex (\<lambda>block. block \<notin> reachable) (Blocks fn)
          in if modified
             then (case renumber h newBlocks 0 of
                     None \<Rightarrow> None
                   | Some h' \<Rightarrow> Some (True, h', fn\<lparr>Blocks := newBlocks\<rparr>))
             else Some (False, h, fn))"

text \<open>
  Paths of the control-flow graph, as the traversal of \<^verbatim>\<open>removeUnreachableBlocks\<close> follows
  them: an edge goes from a block of the store to each entry of its \<^verbatim>\<open>Successors\<close> list.
  \<open>closed_upto h R S\<close> says that every edge that starts in \<open>R\<close> ends in \<open>R\<close> or in \<open>S\<close>.
\<close>

definition successor_edges :: "heap \<Rightarrow> (block_ptr \<times> block_ptr) set" where
  "successor_edges h = {(x, y). x < length h \<and> y \<in> set (Successors (h ! x))}"

definition has_path :: "heap \<Rightarrow> block_ptr \<Rightarrow> block_ptr \<Rightarrow> bool" where
  "has_path h a b = ((a, b) \<in> rtrancl (successor_edges h))"

definition closed_upto :: "heap \<Rightarrow> nat set \<Rightarrow> nat set \<Rightarrow> bool" where
  "closed_upto h R S = (\<forall>x y. x \<in> R \<and> (x, y) \<in> successor_edges h \<longrightarrow> y \<in> R \<or> y \<in> S)"

text \<open>One round of the loop of \<^verbatim>\<open>DeadCodeEliminationPass.Run\<close>, and the loop.\<close>

definition dce_round :: "heap \<Rightarrow> func \<Rightarrow> (bool \<times> heap \<times> func) option" where
  "dce_round h fn =
     (case markUsedValues h fn of
        None \<Rightarrow> None
      | Some usedValues \<Rightarrow>
          (case removeUnusedInstructions h fn usedValues of
             None \<Rightarrow> None
           | Some (m1, h1) \<Rightarrow>
               (case removeUnreachableBlocks h1 fn of
                  None \<Rightarrow> None
                | Some (m2, h2, fn2) \<Rightarrow> Some (m1 \<or> m2, h2, fn2))))"

definition total_instructions :: "heap \<Rightarrow> nat" where
  "total_instructions h = sum_list (map (\<lambda>bb. length (Instructions bb)) h)"

definition dce_size :: "heap \<times> func \<Rightarrow> nat" where
  "dce_size = (\<lambda>(h, fn). total_instructions h + length (Blocks fn))"

text \<open>
  The loop of \<^verbatim>\<open>Run\<close> repeats while a round has removed an instruction or a block;
  each such round makes the function smaller, which is why the loop ends.
\<close>

lemma total_instructions_filter:
  assumes "b < length h"
  shows "total_instructions (h[b := (h ! b)\<lparr>Instructions := filter P (Instructions (h ! b))\<rparr>])
           \<le> total_instructions h"
    and "list_ex (\<lambda>i. \<not> P i) (Instructions (h ! b)) \<Longrightarrow>
         total_instructions (h[b := (h ! b)\<lparr>Instructions := filter P (Instructions (h ! b))\<rparr>])
           < total_instructions h"
proof -
  let ?f = "\<lambda>bb. length (Instructions bb)"
  let ?h' = "h[b := (h ! b)\<lparr>Instructions := filter P (Instructions (h ! b))\<rparr>]"
  have mem: "?f (h ! b) \<le> total_instructions h"
    using assms by (simp add: member_le_sum_list total_instructions_def)
  have eq: "total_instructions ?h'
      = total_instructions h + length (filter P (Instructions (h ! b))) - ?f (h ! b)"
    using assms by (simp add: total_instructions_def map_update sum_list_update)
  have le: "length (filter P (Instructions (h ! b))) \<le> ?f (h ! b)"
    by (rule length_filter_le)
  show "total_instructions ?h' \<le> total_instructions h"
    using eq le mem by linarith
  assume "list_ex (\<lambda>i. \<not> P i) (Instructions (h ! b))"
  then obtain i where "i \<in> set (Instructions (h ! b))" "\<not> P i"
    by (auto simp: list_ex_iff)
  then have "length (filter P (Instructions (h ! b))) < ?f (h ! b)"
    by (rule length_filter_less)
  then show "total_instructions ?h' < total_instructions h"
    using eq mem by linarith
qed

lemma remove_unused_blocks_size:
  "remove_unused_blocks h bs used m = Some (m', h') \<Longrightarrow>
   length h' = length h \<and> total_instructions h' \<le> total_instructions h
   \<and> (m \<longrightarrow> m') \<and> (m' \<and> \<not> m \<longrightarrow> total_instructions h' < total_instructions h)"
proof (induction bs arbitrary: h m)
  case Nil
  then show ?case by simp
next
  case (Cons b bs)
  from Cons.prems have b: "b < length h"
    by (simp add: load_def split: if_splits)
  let ?h1 = "h[b := (h ! b)\<lparr>Instructions := filter (keeps used) (Instructions (h ! b))\<rparr>]"
  let ?m1 = "m \<or> list_ex (\<lambda>i. \<not> keeps used i) (Instructions (h ! b))"
  from Cons.prems b have r: "remove_unused_blocks ?h1 bs used ?m1 = Some (m', h')"
    by (simp add: load_def)
  note ih = Cons.IH [OF r]
  note t = total_instructions_filter [OF b, of "keeps used"]
  have 1: "length h' = length h" using ih by simp
  have 2: "total_instructions h' \<le> total_instructions h" using ih t(1) by linarith
  have 3: "m \<longrightarrow> m'" using ih by blast
  have 4: "m' \<and> \<not> m \<longrightarrow> total_instructions h' < total_instructions h"
  proof (intro impI, elim conjE)
    assume m': m' and nm: "\<not> m"
    show "total_instructions h' < total_instructions h"
    proof (cases "list_ex (\<lambda>i. \<not> keeps used i) (Instructions (h ! b))")
      case True
      then show ?thesis using t(2) ih by linarith
    next
      case False
      then have "\<not> ?m1" using nm by simp
      then have "total_instructions h' < total_instructions ?h1" using ih m' by blast
      then show ?thesis using t(1) by linarith
    qed
  qed
  show ?case using 1 2 3 4 by blast
qed

lemma renumber_keeps:
  "renumber h bs i = Some h' \<Longrightarrow>
   length h' = length h
   \<and> (\<forall>p < length h. Instructions (h' ! p) = Instructions (h ! p)
        \<and> Successors (h' ! p) = Successors (h ! p)
        \<and> Predecessors (h' ! p) = Predecessors (h ! p)
        \<and> Label (h' ! p) = Label (h ! p)
        \<and> Dominated (h' ! p) = Dominated (h ! p)
        \<and> (p \<notin> set bs \<longrightarrow> h' ! p = h ! p))"
proof (induction bs arbitrary: h i)
  case Nil
  then show ?case by simp
next
  case (Cons b bs)
  from Cons.prems have b: "b < length h"
    by (simp add: load_def split: if_splits)
  let ?h1 = "h[b := (h ! b)\<lparr>Index := i\<rparr>]"
  from Cons.prems b have r: "renumber ?h1 bs (i + 1) = Some h'"
    by (simp add: load_def)
  note ih = Cons.IH [OF r]
  have len: "length h' = length h" using ih by simp
  have "Instructions (h' ! p) = Instructions (h ! p)
        \<and> Successors (h' ! p) = Successors (h ! p)
        \<and> Predecessors (h' ! p) = Predecessors (h ! p)
        \<and> Label (h' ! p) = Label (h ! p)
        \<and> Dominated (h' ! p) = Dominated (h ! p)
        \<and> (p \<notin> set (b # bs) \<longrightarrow> h' ! p = h ! p)" if p: "p < length h" for p
  proof -
    have p1: "p < length ?h1" using p by simp
    have s: "Instructions (?h1 ! p) = Instructions (h ! p)"
      "Successors (?h1 ! p) = Successors (h ! p)"
      "Predecessors (?h1 ! p) = Predecessors (h ! p)"
      "Label (?h1 ! p) = Label (h ! p)"
      "Dominated (?h1 ! p) = Dominated (h ! p)"
      "p \<noteq> b \<Longrightarrow> ?h1 ! p = h ! p"
      using p b by (simp_all add: nth_list_update)
    show ?thesis using ih p1 s by simp
  qed
  then show ?case using len by simp
qed

lemma total_instructions_cong:
  "length h' = length h \<Longrightarrow> \<forall>p < length h. Instructions (h' ! p) = Instructions (h ! p)
     \<Longrightarrow> total_instructions h' = total_instructions h"
proof -
  assume a: "length h' = length h" "\<forall>p < length h. Instructions (h' ! p) = Instructions (h ! p)"
  have "map (\<lambda>bb. length (Instructions bb)) h' = map (\<lambda>bb. length (Instructions bb)) h"
    using a by (intro nth_equalityI) simp_all
  then show ?thesis by (simp add: total_instructions_def)
qed

lemma removeUnreachableBlocks_SomeD:
  assumes "removeUnreachableBlocks h fn = Some (m, h', fn')"
  shows "\<exists>reachable. reach h {} [Entry fn] = Some reachable
          \<and> m = list_ex (\<lambda>block. block \<notin> reachable) (Blocks fn)
          \<and> (if m then renumber h (filter (\<lambda>block. block \<in> reachable) (Blocks fn)) 0 = Some h'
                     \<and> fn' = fn\<lparr>Blocks := filter (\<lambda>block. block \<in> reachable) (Blocks fn)\<rparr>
              else h' = h \<and> fn' = fn)"
proof (cases "reach h {} [Entry fn]")
  case None
  then show ?thesis using assms by (simp add: removeUnreachableBlocks_def)
next
  case (Some reachable)
  show ?thesis
  proof (cases "list_ex (\<lambda>block. block \<notin> reachable) (Blocks fn)")
    case True
    show ?thesis
    proof (cases "renumber h (filter (\<lambda>block. block \<in> reachable) (Blocks fn)) 0")
      case None
      then show ?thesis using assms Some True by (simp add: removeUnreachableBlocks_def)
    next
      case (Some h2)
      have "m \<and> h' = h2 \<and> fn' = fn\<lparr>Blocks := filter (\<lambda>block. block \<in> reachable) (Blocks fn)\<rparr>"
        using assms \<open>reach h {} [Entry fn] = Some reachable\<close> True Some
        by (simp add: removeUnreachableBlocks_def)
      then show ?thesis
        using \<open>reach h {} [Entry fn] = Some reachable\<close> True Some by simp
    qed
  next
    case False
    have "\<not> m \<and> h' = h \<and> fn' = fn"
      using assms Some False by (simp add: removeUnreachableBlocks_def)
    then show ?thesis using Some False by simp
  qed
qed

lemma removeUnreachableBlocks_size:
  assumes "removeUnreachableBlocks h fn = Some (m, h', fn')"
  shows "total_instructions h' = total_instructions h"
    and "length (Blocks fn') \<le> length (Blocks fn)"
    and "m \<Longrightarrow> length (Blocks fn') < length (Blocks fn)"
proof -
  from removeUnreachableBlocks_SomeD [OF assms] obtain reachable where
    mm: "m = list_ex (\<lambda>block. block \<notin> reachable) (Blocks fn)"
    and c: "if m then renumber h (filter (\<lambda>block. block \<in> reachable) (Blocks fn)) 0 = Some h'
                     \<and> fn' = fn\<lparr>Blocks := filter (\<lambda>block. block \<in> reachable) (Blocks fn)\<rparr>
            else h' = h \<and> fn' = fn"
    by (elim exE conjE)
  show "total_instructions h' = total_instructions h"
  proof (cases m)
    case True
    then have "renumber h (filter (\<lambda>block. block \<in> reachable) (Blocks fn)) 0 = Some h'"
      using c by simp
    from renumber_keeps [OF this]
    have "length h' = length h" "\<forall>p < length h. Instructions (h' ! p) = Instructions (h ! p)"
      by simp_all
    then show ?thesis by (rule total_instructions_cong)
  next
    case False
    then show ?thesis using c by simp
  qed
  show "length (Blocks fn') \<le> length (Blocks fn)"
  proof (cases m)
    case True
    then have "Blocks fn' = filter (\<lambda>block. block \<in> reachable) (Blocks fn)" using c by simp
    then show ?thesis by simp
  next
    case False
    then show ?thesis using c by simp
  qed
  assume m: m
  then have b: "Blocks fn' = filter (\<lambda>block. block \<in> reachable) (Blocks fn)" using c by simp
  from m mm obtain x where x: "x \<in> set (Blocks fn)" "\<not> x \<in> reachable"
    by (auto simp: list_ex_iff)
  have "length (filter (\<lambda>block. block \<in> reachable) (Blocks fn)) < length (Blocks fn)"
    using x by (rule length_filter_less)
  then show "length (Blocks fn') < length (Blocks fn)"
    unfolding b .
qed

lemma dce_round_decreases:
  assumes "dce_round h fn = Some (True, h', fn')"
  shows "dce_size (h', fn') < dce_size (h, fn)"
proof -
  from assms obtain used m1 h1 m2 where
    u: "removeUnusedInstructions h fn used = Some (m1, h1)"
    and r: "removeUnreachableBlocks h1 fn = Some (m2, h', fn')"
    and m: "m1 \<or> m2"
    by (auto simp: dce_round_def split: option.splits prod.splits)
  from u have s1: "total_instructions h1 \<le> total_instructions h"
    "m1 \<Longrightarrow> total_instructions h1 < total_instructions h"
    using remove_unused_blocks_size [of h "Blocks fn" used False m1 h1]
    by (simp_all add: removeUnusedInstructions_def)
  note s2 = removeUnreachableBlocks_size [OF r]
  show ?thesis
  proof (cases m1)
    case True
    then show ?thesis using s1 s2(1,2)
      by (simp add: dce_size_def)
  next
    case False
    then have m2 using m by simp
    then show ?thesis using s1(1) s2(1) s2(3)
      by (simp add: dce_size_def)
  qed
qed

function dce_Run :: "heap \<Rightarrow> func \<Rightarrow> (heap \<times> func) option" where
  "dce_Run h fn =
     (case dce_round h fn of
        None \<Rightarrow> None
      | Some (modified, h', fn') \<Rightarrow> if modified then dce_Run h' fn' else Some (h', fn'))"
  by pat_completeness auto
termination
  apply (relation "measure (\<lambda>(h, fn). dce_size (h, fn))")
  subgoal by simp
  subgoal premises prems for h fn x2 modified y h' fn'
    using prems dce_round_decreases [of h fn h' fn'] by simp
  done

declare dce_Run.simps [simp del]

section \<open>Model: the pass manager (\<^verbatim>\<open>optimizer.go\<close>)\<close>









text \<open>
  Values used in the examples: an integer constant, and a temporary, each at a given address.
\<close>

definition const_int :: "nat \<Rightarrow> 64 word \<Rightarrow> val" where
  "const_int p n = \<lparr>ptr = p, ID = -1, Name = [], Type = IntType, Kind = ValueConstant,
                    Constant = ConstInt n\<rparr>"

definition temp :: "nat \<Rightarrow> int \<Rightarrow> val" where
  "temp p i = \<lparr>ptr = p, ID = i, Name = [], Type = IntType, Kind = ValueTemporary,
               Constant = ConstNone\<rparr>"

section \<open>Model: IR values, blocks and functions used in the examples\<close>

text \<open>
  Shorthands for writing down concrete IR: a variable, a block and a function by their
  fields, a module by its functions.
\<close>

definition var_named :: "nat \<Rightarrow> int \<Rightarrow> string \<Rightarrow> val" where
  "var_named p i n = \<lparr>ptr = p, ID = i, Name = n, Type = IntType, Kind = ValueVariable,
                      Constant = ConstNone\<rparr>"

definition block_of :: "string \<Rightarrow> instruction list \<Rightarrow> block_ptr list \<Rightarrow> block_ptr list \<Rightarrow> int
    \<Rightarrow> basic_block" where
  "block_of l is ss ps i =
     \<lparr>Label = l, Instructions = is, Successors = ss, Predecessors = ps, Dominated = [],
      Index = i\<rparr>"

definition func_of :: "string \<Rightarrow> block_ptr list \<Rightarrow> func" where
  "func_of n bs = \<lparr>fn_Name = n, Parameters = [], ReturnType = IntType, Blocks = bs, Entry = 0,
                   Locals = [], nextValueID = 0\<rparr>"

definition dead_store_heap :: heap where
  "dead_store_heap =
     [block_of ''entry'' [Return (Some (const_int 5 1))] [] [] 0,
      block_of ''dead'' [Store (var_named 6 0 ''x'') (const_int 7 2), Jump 2] [2] [] 1,
      block_of ''join'' [Return (Some (const_int 8 2))] [] [1] 2]"

definition module_of :: "func list \<Rightarrow> ir_module" where
  "module_of fns = \<lparr>mod_Name = ''p'', Functions = fns, Globals = []\<rparr>"

definition const_bool :: "nat \<Rightarrow> bool \<Rightarrow> val" where
  "const_bool p b = \<lparr>ptr = p, ID = -1, Name = [], Type = BoolType, Kind = ValueConstant,
                     Constant = ConstBool b\<rparr>"

text \<open>
  The blocks that \<^verbatim>\<open>while (true) { break; }\<close> is lowered to in a \<^verbatim>\<open>Void\<close> function: the
  body ends in the jump of \<^verbatim>\<open>break\<close>, for which the builder records no successor.  And a
  function whose entry jumps to a block without recording the edge.
\<close>

definition break_loop_heap :: heap where
  "break_loop_heap =
     [block_of ''entry'' [Jump 1] [1] [] 0,
      block_of ''while.cond'' [Branch (const_bool 9 True) 2 3] [2, 3] [0] 1,
      block_of ''while.body'' [Jump 3] [] [1] 2,
      block_of ''while.end'' [Return None] [] [1] 3]"

definition orphan_heap :: heap where
  "orphan_heap =
     [block_of ''entry'' [Jump 1] [] [] 0,
      block_of ''orphan'' [Jump 1, Return None] [] [] 1]"

text \<open>
  A block that calls a \<^verbatim>\<open>Void\<close> function into a destination.
\<close>

definition void_call_heap :: heap where
  "void_call_heap =
     [block_of ''entry''
        [Call (Some (temp 2 0))
           \<lparr>ptr = 1, ID = -1, Name = ''g'', Type = FunctionType [] VoidType,
            Kind = ValueVariable, Constant = ConstNone\<rparr> [],
         Return None] [] [] 0]"

text \<open>A function with an unreachable block that jumps to a reachable one.\<close>

definition stale_pred_heap :: heap where
  "stale_pred_heap =
     [block_of ''entry'' [Jump 2] [2] [] 0,
      block_of ''dead'' [Jump 2] [2] [] 1,
      block_of ''join'' [Return None] [] [0, 1] 2]"






section \<open>Model: source positions and tokens (\<^verbatim>\<open>position.go\<close>, \<^verbatim>\<open>token.go\<close>)\<close>

record position =
  Filename :: string
  Line :: int
  Column :: int
  Offset :: int

text \<open>
  \<^verbatim>\<open>type TokenType int\<close> with its constants numbered by \<^verbatim>\<open>iota\<close>.
\<close>

type_synonym token_type = int

definition TokenEOF :: token_type where "TokenEOF = 0"
definition TokenInvalid :: token_type where "TokenInvalid = 1"
definition TokenComment :: token_type where "TokenComment = 2"
definition TokenNumber :: token_type where "TokenNumber = 3"
definition TokenString :: token_type where "TokenString = 4"
definition TokenChar :: token_type where "TokenChar = 5"
definition TokenTrue :: token_type where "TokenTrue = 6"
definition TokenFalse :: token_type where "TokenFalse = 7"
definition TokenNil :: token_type where "TokenNil = 8"
definition TokenIdentifier :: token_type where "TokenIdentifier = 9"
definition TokenIf :: token_type where "TokenIf = 10"
definition TokenElse :: token_type where "TokenElse = 11"
definition TokenFor :: token_type where "TokenFor = 12"
definition TokenWhile :: token_type where "TokenWhile = 13"
definition TokenBreak :: token_type where "TokenBreak = 14"
definition TokenContinue :: token_type where "TokenContinue = 15"
definition TokenReturn :: token_type where "TokenReturn = 16"
definition TokenSwitch :: token_type where "TokenSwitch = 17"
definition TokenCase :: token_type where "TokenCase = 18"
definition TokenDefault :: token_type where "TokenDefault = 19"
definition TokenFunc :: token_type where "TokenFunc = 20"
definition TokenVar :: token_type where "TokenVar = 21"
definition TokenConst :: token_type where "TokenConst = 22"
definition TokenTypeKeyword :: token_type where "TokenTypeKeyword = 23"
definition TokenStruct :: token_type where "TokenStruct = 24"
definition TokenInterface :: token_type where "TokenInterface = 25"
definition TokenImport :: token_type where "TokenImport = 26"
definition TokenPackage :: token_type where "TokenPackage = 27"
definition TokenPlus :: token_type where "TokenPlus = 28"
definition TokenMinus :: token_type where "TokenMinus = 29"
definition TokenStar :: token_type where "TokenStar = 30"
definition TokenSlash :: token_type where "TokenSlash = 31"
definition TokenPercent :: token_type where "TokenPercent = 32"
definition TokenStarStar :: token_type where "TokenStarStar = 33"
definition TokenEqual :: token_type where "TokenEqual = 34"
definition TokenNotEqual :: token_type where "TokenNotEqual = 35"
definition TokenLess :: token_type where "TokenLess = 36"
definition TokenLessEqual :: token_type where "TokenLessEqual = 37"
definition TokenGreater :: token_type where "TokenGreater = 38"
definition TokenGreaterEqual :: token_type where "TokenGreaterEqual = 39"
definition TokenAnd :: token_type where "TokenAnd = 40"
definition TokenOr :: token_type where "TokenOr = 41"
definition TokenNot :: token_type where "TokenNot = 42"
definition TokenBitAnd :: token_type where "TokenBitAnd = 43"
definition TokenBitOr :: token_type where "TokenBitOr = 44"
definition TokenBitXor :: token_type where "TokenBitXor = 45"
definition TokenBitNot :: token_type where "TokenBitNot = 46"
definition TokenShl :: token_type where "TokenShl = 47"
definition TokenShr :: token_type where "TokenShr = 48"
definition TokenAssign :: token_type where "TokenAssign = 49"
definition TokenPlusEq :: token_type where "TokenPlusEq = 50"
definition TokenMinusEq :: token_type where "TokenMinusEq = 51"
definition TokenStarEq :: token_type where "TokenStarEq = 52"
definition TokenSlashEq :: token_type where "TokenSlashEq = 53"
definition TokenPercentEq :: token_type where "TokenPercentEq = 54"
definition TokenAndEq :: token_type where "TokenAndEq = 55"
definition TokenOrEq :: token_type where "TokenOrEq = 56"
definition TokenXorEq :: token_type where "TokenXorEq = 57"
definition TokenShlEq :: token_type where "TokenShlEq = 58"
definition TokenShrEq :: token_type where "TokenShrEq = 59"
definition TokenPlusPlus :: token_type where "TokenPlusPlus = 60"
definition TokenMinusMinus :: token_type where "TokenMinusMinus = 61"
definition TokenDot :: token_type where "TokenDot = 62"
definition TokenArrow :: token_type where "TokenArrow = 63"
definition TokenQuestion :: token_type where "TokenQuestion = 64"
definition TokenColon :: token_type where "TokenColon = 65"
definition TokenColonColon :: token_type where "TokenColonColon = 66"
definition TokenLeftParen :: token_type where "TokenLeftParen = 67"
definition TokenRightParen :: token_type where "TokenRightParen = 68"
definition TokenLeftBrace :: token_type where "TokenLeftBrace = 69"
definition TokenRightBrace :: token_type where "TokenRightBrace = 70"
definition TokenLeftBracket :: token_type where "TokenLeftBracket = 71"
definition TokenRightBracket :: token_type where "TokenRightBracket = 72"
definition TokenSemicolon :: token_type where "TokenSemicolon = 73"
definition TokenComma :: token_type where "TokenComma = 74"
definition TokenEllipsis :: token_type where "TokenEllipsis = 75"

lemmas token_type_defs =
  TokenEOF_def TokenInvalid_def TokenComment_def TokenNumber_def TokenString_def TokenChar_def
  TokenTrue_def TokenFalse_def TokenNil_def TokenIdentifier_def TokenIf_def TokenElse_def
  TokenFor_def TokenWhile_def TokenBreak_def TokenContinue_def TokenReturn_def TokenSwitch_def
  TokenCase_def TokenDefault_def TokenFunc_def TokenVar_def TokenConst_def TokenTypeKeyword_def
  TokenStruct_def TokenInterface_def TokenImport_def TokenPackage_def TokenPlus_def
  TokenMinus_def TokenStar_def TokenSlash_def TokenPercent_def TokenStarStar_def TokenEqual_def
  TokenNotEqual_def TokenLess_def TokenLessEqual_def TokenGreater_def TokenGreaterEqual_def
  TokenAnd_def TokenOr_def TokenNot_def TokenBitAnd_def TokenBitOr_def TokenBitXor_def
  TokenBitNot_def TokenShl_def TokenShr_def TokenAssign_def TokenPlusEq_def TokenMinusEq_def
  TokenStarEq_def TokenSlashEq_def TokenPercentEq_def TokenAndEq_def TokenOrEq_def
  TokenXorEq_def TokenShlEq_def TokenShrEq_def TokenPlusPlus_def TokenMinusMinus_def
  TokenDot_def TokenArrow_def TokenQuestion_def TokenColon_def TokenColonColon_def
  TokenLeftParen_def TokenRightParen_def TokenLeftBrace_def TokenRightBrace_def
  TokenLeftBracket_def TokenRightBracket_def TokenSemicolon_def TokenComma_def
  TokenEllipsis_def

record token =
  tok_Type :: token_type
  Lexeme :: string
  Position :: position
  Length :: int

definition keywords_table :: "string \<rightharpoonup> token_type" where
  "keywords_table =
     [''if'' \<mapsto> TokenIf, ''else'' \<mapsto> TokenElse, ''for'' \<mapsto> TokenFor, ''while'' \<mapsto> TokenWhile,
      ''break'' \<mapsto> TokenBreak, ''continue'' \<mapsto> TokenContinue, ''return'' \<mapsto> TokenReturn,
      ''switch'' \<mapsto> TokenSwitch, ''case'' \<mapsto> TokenCase, ''default'' \<mapsto> TokenDefault,
      ''func'' \<mapsto> TokenFunc, ''var'' \<mapsto> TokenVar, ''const'' \<mapsto> TokenConst,
      ''type'' \<mapsto> TokenTypeKeyword, ''struct'' \<mapsto> TokenStruct,
      ''interface'' \<mapsto> TokenInterface, ''import'' \<mapsto> TokenImport,
      ''package'' \<mapsto> TokenPackage, ''true'' \<mapsto> TokenTrue, ''false'' \<mapsto> TokenFalse,
      ''nil'' \<mapsto> TokenNil]"

definition LookupKeyword :: "string \<Rightarrow> token_type" where
  "LookupKeyword identifier =
     (case keywords_table identifier of Some tokenType \<Rightarrow> tokenType | None \<Rightarrow> TokenIdentifier)"

section \<open>Model: the lexer (\<^verbatim>\<open>lexer.go\<close>)\<close>

text \<open>
  A Go string is a sequence of bytes, here a \<open>string\<close> (a list of 8-bit characters); a rune is
  a code point, a natural number.  \<^verbatim>\<open>utf8.DecodeRuneInString\<close> is the Go library's decoder:
  it returns the first code point and its width in bytes, \<^verbatim>\<open>(RuneError, 0)\<close> on the empty
  string and \<^verbatim>\<open>(RuneError, 1)\<close> on a byte sequence that is not the shortest encoding of a
  scalar value.
\<close>

definition RuneError :: nat where
  "RuneError = 0xFFFD"

definition DecodeRuneInString :: "string \<Rightarrow> nat \<times> nat" where
  "DecodeRuneInString s =
     (case map of_char s of
        [] \<Rightarrow> (RuneError, 0)
      | s0 # rest \<Rightarrow>
          if s0 < 0x80 then (s0, 1)
          else if s0 < 0xC2 \<or> 0xF4 < s0 then (RuneError, 1)
          else
            let sz = (if s0 < 0xE0 then 2 else if s0 < 0xF0 then 3 else 4 :: nat);
                lo = (if s0 = 0xE0 then 0xA0 else if s0 = 0xF0 then 0x90 else 0x80 :: nat);
                hi = (if s0 = 0xED then 0x9F else if s0 = 0xF4 then 0x8F else 0xBF :: nat)
            in
              if length s < sz then (RuneError, 1)
              else
                let s1 = rest ! 0 in
                if s1 < lo \<or> hi < s1 then (RuneError, 1)
                else if sz \<le> 2 then ((s0 mod 32) * 64 + s1 mod 64, 2)
                else
                  let s2 = rest ! 1 in
                  if s2 < 0x80 \<or> 0xBF < s2 then (RuneError, 1)
                  else if sz \<le> 3 then ((s0 mod 16) * 4096 + (s1 mod 64) * 64 + s2 mod 64, 3)
                  else
                    let s3 = rest ! 2 in
                    if s3 < 0x80 \<or> 0xBF < s3 then (RuneError, 1)
                    else ((s0 mod 8) * 262144 + (s1 mod 64) * 4096 + (s2 mod 64) * 64
                          + s3 mod 64, 4))"

lemma DecodeRuneInString_width:
  assumes "s \<noteq> []"
  shows "1 \<le> snd (DecodeRuneInString s) \<and> snd (DecodeRuneInString s) \<le> length s"
proof (cases s)
  case Nil
  then show ?thesis using assms by simp
next
  case (Cons c cs)
  have "snd (DecodeRuneInString s) = 1
        \<or> (snd (DecodeRuneInString s) = 2 \<and> \<not> length s < 2)
        \<or> (snd (DecodeRuneInString s) = 3 \<and> \<not> length s < 3)
        \<or> (snd (DecodeRuneInString s) = 4 \<and> \<not> length s < 4)"
    unfolding DecodeRuneInString_def Cons by (simp add: Let_def)
  moreover have "1 \<le> length s" using Cons by simp
  ultimately show ?thesis by linarith
qed

text \<open>
  \<^verbatim>\<open>unicode.IsLetter\<close>: on ASCII the letters are \<^verbatim>\<open>A\<close> to \<^verbatim>\<open>Z\<close> and \<^verbatim>\<open>a\<close> to \<^verbatim>\<open>z\<close>; the
  Unicode table of letters beyond ASCII is the parameter \<open>tab\<close> of the lexer's functions.
\<close>

definition unicode_IsLetter :: "(nat \<Rightarrow> bool) \<Rightarrow> nat \<Rightarrow> bool" where
  "unicode_IsLetter tab ch =
     (if ch < 0x80 then (0x41 \<le> ch \<and> ch \<le> 0x5A) \<or> (0x61 \<le> ch \<and> ch \<le> 0x7A) else tab ch)"

definition isLetter :: "(nat \<Rightarrow> bool) \<Rightarrow> nat \<Rightarrow> bool" where
  "isLetter tab ch = (unicode_IsLetter tab ch \<or> ch = 0x5F)"

definition isDigit :: "nat \<Rightarrow> bool" where
  "isDigit ch = (0x30 \<le> ch \<and> ch \<le> 0x39)"

text \<open>
  \<^verbatim>\<open>runeCount\<close> counts the steps of \<^verbatim>\<open>for range s\<close>, which decodes one rune at a time.
\<close>

function runeCount :: "string \<Rightarrow> nat" where
  "runeCount s = (if s = [] then 0 else Suc (runeCount (drop (snd (DecodeRuneInString s)) s)))"
  by pat_completeness auto
termination
  apply (relation "measure length")
  subgoal by simp
  subgoal for s using DecodeRuneInString_width [of s] by simp
  done

declare runeCount.simps [simp del]

record lexer =
  source :: string
  filename :: string
  start :: nat
  current :: nat
  line :: int
  lineStart :: nat

definition New :: "string \<Rightarrow> string \<Rightarrow> lexer" where
  "New src fname =
     \<lparr>source = src, filename = fname, start = 0, current = 0, line = 1, lineStart = 0\<rparr>"

definition isAtEnd :: "lexer \<Rightarrow> bool" where
  "isAtEnd l = (current l \<ge> length (source l))"

definition advance :: "lexer \<Rightarrow> (nat \<times> nat) \<times> lexer" where
  "advance l =
     (if isAtEnd l then ((0, 0), l)
      else
        let (ch, size) = DecodeRuneInString (drop (current l) (source l))
        in ((ch, size), l\<lparr>current := current l + size\<rparr>))"

definition peek :: "lexer \<Rightarrow> nat" where
  "peek l = (if isAtEnd l then 0 else fst (DecodeRuneInString (drop (current l) (source l))))"

definition peekNext :: "lexer \<Rightarrow> nat" where
  "peekNext l =
     (if current l + 1 \<ge> length (source l) then 0
      else
        let size = snd (DecodeRuneInString (drop (current l) (source l)))
        in fst (DecodeRuneInString (drop (current l + size) (source l))))"

definition match :: "lexer \<Rightarrow> nat \<Rightarrow> bool \<times> lexer" where
  "match l expected =
     (if isAtEnd l then (False, l)
      else
        let (ch, size) = DecodeRuneInString (drop (current l) (source l))
        in if ch \<noteq> expected then (False, l) else (True, l\<lparr>current := current l + size\<rparr>))"

definition currentPosition :: "lexer \<Rightarrow> position" where
  "currentPosition l =
     \<lparr>Filename = filename l, Line = line l,
      Column = int (start l) - int (lineStart l) + 1, Offset = int (start l)\<rparr>"

definition makeToken :: "lexer \<Rightarrow> token_type \<Rightarrow> string \<Rightarrow> token" where
  "makeToken l tokenType lexeme =
     \<lparr>tok_Type = tokenType, Lexeme = lexeme, Position = currentPosition l,
      Length = int (current l) - int (start l)\<rparr>"

text \<open>
  An error is the position it is reported at and its message; the message
  \<^verbatim>\<open>unexpected character\<close> carries the character.
\<close>

datatype lex_message =
    UnexpectedCharacter nat
  | UnterminatedString
  | UnterminatedCharacter
  | UnterminatedBlockComment

type_synonym lex_error = "position \<times> lex_message"

definition lexer_error :: "lexer \<Rightarrow> lex_message \<Rightarrow> lex_error" where
  "lexer_error l message = (currentPosition l, message)"

text \<open>The text \<^verbatim>\<open>l.source[l.start:l.current]\<close>.\<close>

definition lexeme_text :: "lexer \<Rightarrow> string" where
  "lexeme_text l = take (current l - start l) (drop (start l) (source l))"

lemma advance_progress:
  "\<not> isAtEnd l \<Longrightarrow>
     current l < current (snd (advance l)) \<and> current (snd (advance l)) \<le> length (source l)"
proof -
  assume a: "\<not> isAtEnd l"
  then have ne: "drop (current l) (source l) \<noteq> []" by (simp add: isAtEnd_def)
  define w where "w = snd (DecodeRuneInString (drop (current l) (source l)))"
  have w: "1 \<le> w" "w \<le> length (source l) - current l"
    using DecodeRuneInString_width [OF ne] by (simp_all add: w_def)
  have c: "current (snd (advance l)) = current l + w"
    using a by (simp add: advance_def split_beta w_def)
  have "current l < length (source l)" using a by (simp add: isAtEnd_def)
  then show ?thesis unfolding c using w by linarith
qed

lemma advance_source [simp]: "source (snd (advance l)) = source l"
  by (simp add: advance_def split_beta)

lemma advance_measure:
  "\<not> isAtEnd l \<Longrightarrow> length (source l) - current (snd (advance l)) < length (source l) - current l"
  using advance_progress [of l] by (simp add: isAtEnd_def) linarith

text \<open>
  The loops of the lexer.  Each of them goes on only while \<^verbatim>\<open>isAtEnd\<close> is false and then
  calls \<^verbatim>\<open>advance\<close>, which moves \<^verbatim>\<open>current\<close> forward by at least one byte.
\<close>

function skipWhitespace :: "lexer \<Rightarrow> lexer" where
  "skipWhitespace l =
     (if isAtEnd l then l
      else if peek l = 0x20 \<or> peek l = 0x0D \<or> peek l = 0x09
      then skipWhitespace (snd (advance l))
      else if peek l = 0x0A
      then skipWhitespace
             ((snd (advance l))\<lparr>line := line l + 1, lineStart := current (snd (advance l))\<rparr>)
      else l)"
  by pat_completeness auto
termination
  apply (relation "measure (\<lambda>l. length (source l) - current l)")
  subgoal by simp
  subgoal for l using advance_measure [of l] by simp
  subgoal for l using advance_measure [of l] by simp
  done

declare skipWhitespace.simps [simp del]

function scanIdentifier_loop :: "(nat \<Rightarrow> bool) \<Rightarrow> lexer \<Rightarrow> lexer" where
  "scanIdentifier_loop tab l =
     (if \<not> isAtEnd l \<and> (isLetter tab (peek l) \<or> isDigit (peek l))
      then scanIdentifier_loop tab (snd (advance l))
      else l)"
  by pat_completeness auto
termination
  apply (relation "measure (\<lambda>(tab, l). length (source l) - current l)")
  subgoal by simp
  subgoal for tab l using advance_measure [of l] by simp
  done

declare scanIdentifier_loop.simps [simp del]

definition scanIdentifier :: "(nat \<Rightarrow> bool) \<Rightarrow> lexer \<Rightarrow> token \<times> lexer" where
  "scanIdentifier tab l =
     (let l1 = scanIdentifier_loop tab l;
          text = lexeme_text l1
      in (makeToken l1 (LookupKeyword text) text, l1))"

text \<open>The loop \<^verbatim>\<open>for !l.isAtEnd() && isDigit(l.peek()) { l.advance() }\<close> of \<^verbatim>\<open>scanNumber\<close>.\<close>

function scanDigits :: "lexer \<Rightarrow> lexer" where
  "scanDigits l =
     (if \<not> isAtEnd l \<and> isDigit (peek l) then scanDigits (snd (advance l)) else l)"
  by pat_completeness auto
termination
  apply (relation "measure (\<lambda>l. length (source l) - current l)")
  subgoal by simp
  subgoal for l using advance_measure [of l] by simp
  done

declare scanDigits.simps [simp del]

definition scanNumber :: "lexer \<Rightarrow> token \<times> lexer" where
  "scanNumber l =
     (let l1 = scanDigits l;
          l2 = (if \<not> isAtEnd l1 \<and> peek l1 = 0x2E
                then (if peekNext l1 \<noteq> 0x2E \<and> isDigit (peekNext l1)
                      then scanDigits (snd (advance l1))
                      else l1)
                else l1);
          l3 = (if \<not> isAtEnd l2 \<and> (peek l2 = 0x65 \<or> peek l2 = 0x45)
                then
                  let savedCurrent = current l2;
                      l4 = snd (advance l2);
                      l5 = (if \<not> isAtEnd l4 \<and> (peek l4 = 0x2B \<or> peek l4 = 0x2D)
                            then snd (advance l4) else l4)
                  in if isAtEnd l5 \<or> \<not> isDigit (peek l5)
                     then l5\<lparr>current := savedCurrent\<rparr>
                     else scanDigits l5
                else l2)
      in (makeToken l3 TokenNumber (lexeme_text l3), l3))"

function scanString :: "lexer \<Rightarrow> (token \<times> lex_error option) \<times> lexer" where
  "scanString l =
     (if \<not> isAtEnd l then
        (if peek l = 0x22 then
           (let l1 = snd (advance l)
            in ((makeToken l1 TokenString (lexeme_text l1), None), l1))
         else if peek l = 0x0A then
           ((makeToken l TokenInvalid [], Some (lexer_error l UnterminatedString)), l)
         else if peek l = 0x5C then
           (let l1 = snd (advance l)
            in scanString (if \<not> isAtEnd l1 then snd (advance l1) else l1))
         else scanString (snd (advance l)))
      else ((makeToken l TokenInvalid [], Some (lexer_error l UnterminatedString)), l))"
  by pat_completeness auto
termination
  apply (relation "measure (\<lambda>l. length (source l) - current l)")
  subgoal by simp
  subgoal for l
    using advance_measure [of l] advance_measure [of "snd (advance l)"]
    by (auto simp: Let_def)
  subgoal for l using advance_measure [of l] by simp
  done

declare scanString.simps [simp del]

definition scanChar :: "lexer \<Rightarrow> (token \<times> lex_error option) \<times> lexer" where
  "scanChar l =
     (if isAtEnd l then
        ((makeToken l TokenInvalid [], Some (lexer_error l UnterminatedCharacter)), l)
      else if peek l = 0x0A then
        ((makeToken l TokenInvalid [], Some (lexer_error l UnterminatedCharacter)), l)
      else
        let l1 = (if peek l = 0x5C
                  then (let l2 = snd (advance l)
                        in if \<not> isAtEnd l2 then snd (advance l2) else l2)
                  else snd (advance l))
        in if isAtEnd l1 \<or> peek l1 \<noteq> 0x27 then
             ((makeToken l1 TokenInvalid [], Some (lexer_error l1 UnterminatedCharacter)), l1)
           else
             let l3 = snd (advance l1)
             in ((makeToken l3 TokenChar (lexeme_text l3), None), l3))"

function scanLineComment_loop :: "lexer \<Rightarrow> lexer" where
  "scanLineComment_loop l =
     (if \<not> isAtEnd l \<and> peek l \<noteq> 0x0A then scanLineComment_loop (snd (advance l)) else l)"
  by pat_completeness auto
termination
  apply (relation "measure (\<lambda>l. length (source l) - current l)")
  subgoal by simp
  subgoal for l using advance_measure [of l] by simp
  done

declare scanLineComment_loop.simps [simp del]

definition scanLineComment :: "lexer \<Rightarrow> token \<times> lexer" where
  "scanLineComment l =
     (let l1 = scanLineComment_loop l
      in (makeToken l1 TokenComment (lexeme_text l1), l1))"

function scanBlockComment_loop :: "int \<Rightarrow> lexer \<Rightarrow> int \<times> lexer" where
  "scanBlockComment_loop depth l =
     (if \<not> isAtEnd l \<and> depth > 0 then
        (if peek l = 0x2F \<and> peekNext l = 0x2A then
           scanBlockComment_loop (depth + 1) (snd (advance (snd (advance l))))
         else if peek l = 0x2A \<and> peekNext l = 0x2F then
           scanBlockComment_loop (depth - 1) (snd (advance (snd (advance l))))
         else
           scanBlockComment_loop depth
             (snd (advance
                (if peek l = 0x0A
                 then l\<lparr>line := line l + 1, lineStart := current l + 1\<rparr>
                 else l))))
      else (depth, l))"
  by pat_completeness auto

lemma advance_mono: "current l \<le> current (snd (advance l))"
  by (simp add: advance_def split_beta)

lemma advance_twice_measure:
  "\<not> isAtEnd l \<Longrightarrow>
     length (source l) - current (snd (advance (snd (advance l)))) < length (source l) - current l"
  using advance_measure [of l] advance_mono [of "snd (advance l)"] by linarith

termination scanBlockComment_loop
  apply (relation "measure (\<lambda>(depth, l). length (source l) - current l)")
  subgoal by simp
  subgoal for depth l using advance_twice_measure [of l] by simp
  subgoal for depth l using advance_twice_measure [of l] by simp
  subgoal for depth l
    using advance_measure [of l]
      advance_measure [of "l\<lparr>line := line l + 1, lineStart := current l + 1\<rparr>"]
    by (simp add: isAtEnd_def)
  done

declare scanBlockComment_loop.simps [simp del]

definition scanBlockComment :: "lexer \<Rightarrow> (token \<times> lex_error option) \<times> lexer" where
  "scanBlockComment l =
     (let (depth, l1) = scanBlockComment_loop 1 l
      in if depth > 0 then
           ((makeToken l1 TokenInvalid [], Some (lexer_error l1 UnterminatedBlockComment)), l1)
         else ((makeToken l1 TokenComment (lexeme_text l1), None), l1))"

text \<open>
  \<^verbatim>\<open>NextToken\<close>.  \<open>tok l t s\<close> is \<^verbatim>\<open>return l.makeToken(t, s), nil\<close>.  In the case of \<^verbatim>\<open>'.'\<close>
  the second \<^verbatim>\<open>match\<close> runs only if the first one succeeded, and a first success is not
  undone when the second fails.
\<close>

definition tok :: "lexer \<Rightarrow> token_type \<Rightarrow> string \<Rightarrow> (token \<times> lex_error option) \<times> lexer" where
  "tok l tokenType lexeme = ((makeToken l tokenType lexeme, None), l)"

definition NextToken :: "(nat \<Rightarrow> bool) \<Rightarrow> lexer \<Rightarrow> (token \<times> lex_error option) \<times> lexer" where
  "NextToken tab l0 =
     (let l1 = skipWhitespace l0;
          l2 = l1\<lparr>start := current l1\<rparr>
      in if isAtEnd l2 then tok l2 TokenEOF []
         else
           let ch = fst (fst (advance l2));
               l = snd (advance l2)
           in if isLetter tab ch then
                (case scanIdentifier tab l of (t, l') \<Rightarrow> ((t, None), l'))
              else if isDigit ch then
                (case scanNumber l of (t, l') \<Rightarrow> ((t, None), l'))
              else if ch = 0x28 then tok l TokenLeftParen ''(''
              else if ch = 0x29 then tok l TokenRightParen '')''
              else if ch = 0x7B then tok l TokenLeftBrace ''{''
              else if ch = 0x7D then tok l TokenRightBrace ''}''
              else if ch = 0x5B then tok l TokenLeftBracket ''[''
              else if ch = 0x5D then tok l TokenRightBracket '']''
              else if ch = 0x3B then tok l TokenSemicolon '';''
              else if ch = 0x2C then tok l TokenComma '',''
              else if ch = 0x7E then tok l TokenBitNot ''~''
              else if ch = 0x3F then tok l TokenQuestion ''?''
              else if ch = 0x2B then
                (if fst (match l 0x2B) then tok (snd (match l 0x2B)) TokenPlusPlus ''++''
                 else if fst (match l 0x3D) then tok (snd (match l 0x3D)) TokenPlusEq ''+=''
                 else tok l TokenPlus ''+'')
              else if ch = 0x2D then
                (if fst (match l 0x2D) then tok (snd (match l 0x2D)) TokenMinusMinus ''--''
                 else if fst (match l 0x3D) then tok (snd (match l 0x3D)) TokenMinusEq ''-=''
                 else if fst (match l 0x3E) then tok (snd (match l 0x3E)) TokenArrow ''->''
                 else tok l TokenMinus ''-'')
              else if ch = 0x2A then
                (if fst (match l 0x2A) then tok (snd (match l 0x2A)) TokenStarStar ''**''
                 else if fst (match l 0x3D) then tok (snd (match l 0x3D)) TokenStarEq ''*=''
                 else tok l TokenStar ''*'')
              else if ch = 0x2F then
                (if fst (match l 0x2F) then
                   (case scanLineComment (snd (match l 0x2F)) of (t, l') \<Rightarrow> ((t, None), l'))
                 else if fst (match l 0x2A) then scanBlockComment (snd (match l 0x2A))
                 else if fst (match l 0x3D) then tok (snd (match l 0x3D)) TokenSlashEq ''/=''
                 else tok l TokenSlash ''/'')
              else if ch = 0x25 then
                (if fst (match l 0x3D) then tok (snd (match l 0x3D)) TokenPercentEq ''%=''
                 else tok l TokenPercent ''%'')
              else if ch = 0x26 then
                (if fst (match l 0x26) then tok (snd (match l 0x26)) TokenAnd ''&&''
                 else if fst (match l 0x3D) then tok (snd (match l 0x3D)) TokenAndEq ''&=''
                 else tok l TokenBitAnd ''&'')
              else if ch = 0x7C then
                (if fst (match l 0x7C) then tok (snd (match l 0x7C)) TokenOr ''||''
                 else if fst (match l 0x3D) then tok (snd (match l 0x3D)) TokenOrEq ''|=''
                 else tok l TokenBitOr ''|'')
              else if ch = 0x5E then
                (if fst (match l 0x3D) then tok (snd (match l 0x3D)) TokenXorEq ''^=''
                 else tok l TokenBitXor ''^'')
              else if ch = 0x3D then
                (if fst (match l 0x3D) then tok (snd (match l 0x3D)) TokenEqual ''==''
                 else tok l TokenAssign ''='')
              else if ch = 0x21 then
                (if fst (match l 0x3D) then tok (snd (match l 0x3D)) TokenNotEqual ''!=''
                 else tok l TokenNot ''!'')
              else if ch = 0x3C then
                (if fst (match l 0x3C) then
                   (let m = snd (match l 0x3C)
                    in if fst (match m 0x3D) then tok (snd (match m 0x3D)) TokenShlEq ''<<=''
                       else tok m TokenShl ''<<'')
                 else if fst (match l 0x3D) then tok (snd (match l 0x3D)) TokenLessEqual ''<=''
                 else tok l TokenLess ''<'')
              else if ch = 0x3E then
                (if fst (match l 0x3E) then
                   (let m = snd (match l 0x3E)
                    in if fst (match m 0x3D) then tok (snd (match m 0x3D)) TokenShrEq ''>>=''
                       else tok m TokenShr ''>>'')
                 else if fst (match l 0x3D) then tok (snd (match l 0x3D)) TokenGreaterEqual ''>=''
                 else tok l TokenGreater ''>'')
              else if ch = 0x3A then
                (if fst (match l 0x3A) then tok (snd (match l 0x3A)) TokenColonColon ''::''
                 else tok l TokenColon '':'')
              else if ch = 0x2E then
                (if fst (match l 0x2E) then
                   (let m = snd (match l 0x2E)
                    in if fst (match m 0x2E) then tok (snd (match m 0x2E)) TokenEllipsis ''...''
                       else tok m TokenDot ''.'')
                 else tok l TokenDot ''.'')
              else if ch = 0x22 then scanString l
              else if ch = 0x27 then scanChar l
              else ((makeToken l TokenInvalid [], Some (lexer_error l (UnexpectedCharacter ch))), l))"

text \<open>
  The lexer after \<open>n\<close> calls of \<^verbatim>\<open>NextToken\<close>, and the token that the call number \<open>n\<close>
  (counted from 0) returns.
\<close>

fun lexer_after :: "(nat \<Rightarrow> bool) \<Rightarrow> nat \<Rightarrow> lexer \<Rightarrow> lexer" where
  "lexer_after tab 0 l = l"
| "lexer_after tab (Suc n) l = lexer_after tab n (snd (NextToken tab l))"

definition nth_token :: "(nat \<Rightarrow> bool) \<Rightarrow> nat \<Rightarrow> lexer \<Rightarrow> token" where
  "nth_token tab n l = fst (fst (NextToken tab (lexer_after tab n l)))"


text \<open>
  A lexer is exhausted when only whitespace is left between \<^verbatim>\<open>current\<close> and the end of the
  source.
\<close>

definition exhausted :: "lexer \<Rightarrow> bool" where
  "exhausted l = isAtEnd (skipWhitespace l)"


text \<open>
  The column of the specification: 1 plus the number of code points between the byte offset
  of the start of the line and the byte offset of the start of the token.
\<close>

definition spec_column :: "string \<Rightarrow> nat \<Rightarrow> nat \<Rightarrow> int" where
  "spec_column src lineStart_byte start_byte =
     1 + int (runeCount (take (start_byte - lineStart_byte) (drop lineStart_byte src)))"

text \<open>
  Inputs of the examples: a lexer without letters beyond ASCII, the six bytes of the text
  \<^verbatim>\<open>"e" +\<close> with an e acute (two bytes in UTF-8) in the string, and a block comment
  over two lines.
\<close>

definition no_letters :: "nat \<Rightarrow> bool" where
  "no_letters ch = False"

definition quoted_e_acute_plus :: string where
  "quoted_e_acute_plus = [CHR 0x22, CHR 0xC3, CHR 0xA9, CHR 0x22, CHR 0x20, CHR 0x2B]"

definition two_line_comment :: string where
  "two_line_comment = [CHR 0x2F, CHR 0x2A, CHR 0x0A, CHR 0x2A, CHR 0x2F]"

section \<open>Model: the syntax tree (\<^verbatim>\<open>ast\<close>) and the analyzer's tables\<close>

text \<open>
  The nodes of the syntax tree with the fields that the IR builder reads: an operator token
  is kept as its type, an identifier as its name, a \<^verbatim>\<open>*BlockStmt\<close> as the list of its
  statements, a pointer that may be \<^verbatim>\<open>nil\<close> as an option.  Positions and punctuation tokens
  are left out.
\<close>

datatype expr =
    BinaryExpr expr token_type expr
  | UnaryExpr token_type expr bool
  | LiteralExpr const_payload
  | IdentifierExpr string
  | CallExpr expr "expr list"
  | IndexExpr expr expr
  | MemberExpr expr string
  | AssignmentExpr expr token_type expr
  | LogicalExpr expr token_type expr
  | GroupingExpr expr
  | ArrayLiteralExpr "expr option" "expr list"
  | StructLiteralExpr string "(string \<times> expr) list"

datatype stmt =
    ExprStmt expr
  | BlockStmt "stmt list"
  | IfStmt expr "stmt list" "stmt option"
  | WhileStmt expr "stmt list"
  | ForStmt "stmt option" "expr option" "stmt option" "stmt list"
  | ReturnStmt "expr option"
  | BreakStmt
  | ContinueStmt
  | SwitchStmt expr "(expr list \<times> stmt list \<times> bool) list"
  | VarDecl "string list" "expr option" "expr option"

text \<open>
  Declarations: \<^verbatim>\<open>FuncDecl\<close> with its name, the names of its parameters and its body;
  \<^verbatim>\<open>VarDecl\<close> at top level (the same struct as the statement) with its names; type and
  struct declarations, for which no IR is built.
\<close>

datatype decl =
    FuncDecl string "string list" "stmt list option"
  | GlobalVarDecl "string list" "expr option" "expr option"
  | TypeDecl string
  | StructDecl string

record ast_file =
  Package :: string
  Decls :: "decl list"

text \<open>
  What the builder asks of \<^verbatim>\<open>semantic.Analyzer\<close>: \<^verbatim>\<open>GetExprType\<close>, a lookup in the table
  \<^verbatim>\<open>exprTypes\<close> that gives \<^verbatim>\<open>types.Invalid\<close> for an expression without entry, and
  \<^verbatim>\<open>GetScope().Lookup\<close>, a lookup by name in the global scope.  The table of expression types
  has the expression itself as key.  A symbol of the global scope is identified by its name.
\<close>

datatype symbol_kind =
    SymbolVariable | SymbolFunction | SymbolParameter | SymbolType | SymbolStruct | SymbolField
  | SymbolPackage

record symbol =
  sym_Name :: string
  sym_Kind :: symbol_kind
  sym_Type :: ty

record analyzer =
  exprTypes :: "expr \<rightharpoonup> ty"
  globalScope :: "string \<rightharpoonup> symbol"

definition GetExprType :: "analyzer \<Rightarrow> expr \<Rightarrow> ty" where
  "GetExprType a e = (case exprTypes a e of Some t \<Rightarrow> t | None \<Rightarrow> InvalidType)"

definition Lookup :: "analyzer \<Rightarrow> string \<Rightarrow> symbol option" where
  "Lookup a name = globalScope a name"

section \<open>Model: the IR builder (\<^verbatim>\<open>builder.go\<close>)\<close>

text \<open>
  \<^verbatim>\<open>Function.NewValue\<close> and \<^verbatim>\<open>NewTemp\<close> of \<^verbatim>\<open>cfg.go\<close>: a new value at the address \<open>a\<close>
  with the next id of the function.
\<close>

definition NewValue :: "nat \<Rightarrow> func \<Rightarrow> string \<Rightarrow> ty \<Rightarrow> value_kind \<Rightarrow> val \<times> func" where
  "NewValue a f name typ kind =
     (\<lparr>ptr = a, ID = nextValueID f, Name = name, Type = typ, Kind = kind, Constant = ConstNone\<rparr>,
      f\<lparr>nextValueID := nextValueID f + 1\<rparr>)"

definition NewTemp :: "nat \<Rightarrow> func \<Rightarrow> ty \<Rightarrow> val \<times> func" where
  "NewTemp a f typ = NewValue a f [] typ ValueTemporary"

definition NewModule :: "string \<Rightarrow> ir_module" where
  "NewModule name = \<lparr>mod_Name = name, Functions = [], Globals = []\<rparr>"

definition AddFunction :: "ir_module \<Rightarrow> func \<Rightarrow> ir_module" where
  "AddFunction m fn = m\<lparr>Functions := Functions m @ [fn]\<rparr>"

text \<open>
  The builder.  Its state is the struct \<^verbatim>\<open>Builder\<close> together with the store of blocks and
  the first unused address for a \<^verbatim>\<open>Value\<close>.  The current function is held by value: the
  builder is the only holder of the pointer until \<^verbatim>\<open>AddFunction\<close>, and does not write to the
  function afterwards.  The messages of \<^verbatim>\<open>b.error\<close> are a datatype; the position is left out.

  Every function of the builder returns an option: \<open>None\<close> is a run-time panic of the source
  (a \<^verbatim>\<open>nil\<close> dereference, a failed type assertion, an index out of range), and also the one
  case that the model of instructions does not cover: \<^verbatim>\<open>buildCall\<close> returns \<^verbatim>\<open>nil\<close> for a call
  whose type is \<^verbatim>\<open>Void\<close>, and the source then stores this \<^verbatim>\<open>nil\<close> as the operand of the
  instruction built around the call.  So \<^verbatim>\<open>buildExpr\<close> returns an optional value, and using an
  absent value as an operand other than the value of a \<^verbatim>\<open>Return\<close> gives \<open>None\<close>.
\<close>

datatype build_error =
    FunctionSymbolNotFound
  | UnsupportedExpressionType
  | UnsupportedBinaryOperator
  | UnsupportedUnaryOperator
  | UndefinedVariable
  | VariableNotMapped

record builder =
  next_address :: nat
  blocks :: heap
  b_module :: ir_module
  b_analyzer :: analyzer
  currentFunc :: "func option"
  currentBlock :: "block_ptr option"
  variables :: "string \<rightharpoonup> val"
  namedValues :: "string \<rightharpoonup> val"
  breakTarget :: "block_ptr option"
  continueTarget :: "block_ptr option"
  errors :: "build_error list"

definition NewBuilder :: "nat \<Rightarrow> heap \<Rightarrow> analyzer \<Rightarrow> builder" where
  "NewBuilder a h an =
     \<lparr>next_address = a, blocks = h, b_module = NewModule [], b_analyzer = an,
      currentFunc = None, currentBlock = None, variables = Map.empty, namedValues = Map.empty,
      breakTarget = None, continueTarget = None, errors = []\<rparr>"

definition error :: "build_error \<Rightarrow> builder \<Rightarrow> builder" where
  "error message b = b\<lparr>errors := errors b @ [message]\<rparr>"

text \<open>
  \<^verbatim>\<open>b.currentBlock.AddInstruction(instr)\<close>, \<^verbatim>\<open>b.currentBlock.AddSuccessor(succ)\<close>,
  \<^verbatim>\<open>b.currentBlock.IsTerminated()\<close>, \<^verbatim>\<open>b.currentFunc.NewTemp(typ)\<close> and
  \<^verbatim>\<open>b.currentFunc.NewBasicBlockInFunc(label)\<close> on the state of the builder.
\<close>

definition currentBlock_AddInstruction :: "instruction \<Rightarrow> builder \<Rightarrow> builder option" where
  "currentBlock_AddInstruction instr b =
     (case currentBlock b of
        None \<Rightarrow> None
      | Some bb \<Rightarrow>
          (case AddInstruction (blocks b) bb instr of
             None \<Rightarrow> None
           | Some h \<Rightarrow> Some (b\<lparr>blocks := h\<rparr>)))"

definition currentBlock_AddSuccessor :: "block_ptr \<Rightarrow> builder \<Rightarrow> builder option" where
  "currentBlock_AddSuccessor succ b =
     (case currentBlock b of
        None \<Rightarrow> None
      | Some bb \<Rightarrow>
          (case AddSuccessor (blocks b) bb succ of
             None \<Rightarrow> None
           | Some h \<Rightarrow> Some (b\<lparr>blocks := h\<rparr>)))"

definition currentBlock_IsTerminated :: "builder \<Rightarrow> bool option" where
  "currentBlock_IsTerminated b =
     (case currentBlock b of
        None \<Rightarrow> None
      | Some bb \<Rightarrow> map_option IsTerminated (load (blocks b) bb))"

definition currentFunc_NewTemp :: "ty \<Rightarrow> builder \<Rightarrow> (val \<times> builder) option" where
  "currentFunc_NewTemp typ b =
     (case currentFunc b of
        None \<Rightarrow> None
      | Some f \<Rightarrow>
          (case NewTemp (next_address b) f typ of
             (v, f') \<Rightarrow> Some (v, b\<lparr>next_address := next_address b + 1, currentFunc := Some f'\<rparr>)))"

definition currentFunc_NewBasicBlockInFunc :: "string \<Rightarrow> builder \<Rightarrow> (block_ptr \<times> builder) option"
  where
  "currentFunc_NewBasicBlockInFunc label b =
     (case currentFunc b of
        None \<Rightarrow> None
      | Some f \<Rightarrow>
          (case NewBasicBlockInFunc (blocks b) f label of
             (h, f', bb) \<Rightarrow> Some (bb, b\<lparr>blocks := h, currentFunc := Some f'\<rparr>)))"

text \<open>The two \<^verbatim>\<open>switch\<close> statements that map a token type to an IR operator.\<close>

definition binary_operator_of :: "token_type \<Rightarrow> binary_operator option" where
  "binary_operator_of t =
     (if t = TokenPlus then Some OpAdd
      else if t = TokenMinus then Some OpSub
      else if t = TokenStar then Some OpMul
      else if t = TokenSlash then Some OpDiv
      else if t = TokenPercent then Some OpMod
      else if t = TokenEqual then Some OpEq
      else if t = TokenNotEqual then Some OpNeq
      else if t = TokenLess then Some OpLt
      else if t = TokenLessEqual then Some OpLe
      else if t = TokenGreater then Some OpGt
      else if t = TokenGreaterEqual then Some OpGe
      else if t = TokenBitAnd then Some OpBitAnd
      else if t = TokenBitOr then Some OpBitOr
      else if t = TokenBitXor then Some OpBitXor
      else if t = TokenShl then Some OpShl
      else if t = TokenShr then Some OpShr
      else None)"

definition unary_operator_of :: "token_type \<Rightarrow> unary_operator option" where
  "unary_operator_of t =
     (if t = TokenMinus then Some OpNeg
      else if t = TokenNot then Some OpNot
      else if t = TokenBitNot then Some OpBitNot
      else None)"

definition buildLiteral :: "const_payload \<Rightarrow> ty \<Rightarrow> builder \<Rightarrow> (val option \<times> builder) option" where
  "buildLiteral v exprType b =
     Some (Some \<lparr>ptr = next_address b, ID = -1, Name = [], Type = exprType, Kind = ValueConstant,
                  Constant = v\<rparr>,
           b\<lparr>next_address := next_address b + 1\<rparr>)"

definition invalid_temp :: "build_error \<Rightarrow> builder \<Rightarrow> (val option \<times> builder) option" where
  "invalid_temp message b =
     (case currentFunc_NewTemp InvalidType (error message b) of
        None \<Rightarrow> None
      | Some (v, b') \<Rightarrow> Some (Some v, b'))"

definition buildIdentifier :: "string \<Rightarrow> builder \<Rightarrow> (val option \<times> builder) option" where
  "buildIdentifier name b =
     (case namedValues b name of
        Some v \<Rightarrow> Some (Some v, b)
      | None \<Rightarrow>
          (case Lookup (b_analyzer b) name of
             None \<Rightarrow> invalid_temp UndefinedVariable b
           | Some symbol \<Rightarrow>
               if sym_Kind symbol = SymbolFunction then
                 Some (Some \<lparr>ptr = next_address b, ID = -1, Name = name, Type = sym_Type symbol,
                              Kind = ValueVariable, Constant = ConstNone\<rparr>,
                       b\<lparr>next_address := next_address b + 1\<rparr>)
               else
                 (case variables b name of
                    Some v \<Rightarrow> Some (Some v, b)
                  | None \<Rightarrow> invalid_temp VariableNotMapped b)))"

text \<open>
  The target of an assignment that \<^verbatim>\<open>buildAssignment\<close> finds: a named value first, then the
  value mapped to the symbol of the global scope.
\<close>

definition assignment_target :: "expr \<Rightarrow> builder \<Rightarrow> val option" where
  "assignment_target target b =
     (case target of
        IdentifierExpr name \<Rightarrow>
          (case namedValues b name of
             Some t \<Rightarrow> Some t
           | None \<Rightarrow>
               (case Lookup (b_analyzer b) name of
                  None \<Rightarrow> None
                | Some symbol \<Rightarrow> variables b name))
      | _ \<Rightarrow> None)"

fun buildExpr :: "expr \<Rightarrow> builder \<Rightarrow> (val option \<times> builder) option"
  and buildExprs :: "expr list \<Rightarrow> builder \<Rightarrow> (val option list \<times> builder) option" where
  "buildExpr (BinaryExpr left operator right) b =
     do {
       (l, b1) \<leftarrow> buildExpr left b;
       (r, b2) \<leftarrow> buildExpr right b1;
       (result, b3) \<leftarrow>
         currentFunc_NewTemp (GetExprType (b_analyzer b) (BinaryExpr left operator right)) b2;
       (case binary_operator_of operator of
          None \<Rightarrow> Some (Some result, error UnsupportedBinaryOperator b3)
        | Some op \<Rightarrow>
            do {
              lv \<leftarrow> l;
              rv \<leftarrow> r;
              b4 \<leftarrow> currentBlock_AddInstruction (BinaryOp op result lv rv) b3;
              Some (Some result, b4)
            })
     }"
| "buildExpr (UnaryExpr operator operand isPostfix) b =
     do {
       (v, b1) \<leftarrow> buildExpr operand b;
       (result, b2) \<leftarrow>
         currentFunc_NewTemp (GetExprType (b_analyzer b) (UnaryExpr operator operand isPostfix)) b1;
       (case unary_operator_of operator of
          None \<Rightarrow> Some (Some result, error UnsupportedUnaryOperator b2)
        | Some op \<Rightarrow>
            do {
              x \<leftarrow> v;
              b3 \<leftarrow> currentBlock_AddInstruction (UnaryOp op result x) b2;
              Some (Some result, b3)
            })
     }"
| "buildExpr (LiteralExpr v) b = buildLiteral v (GetExprType (b_analyzer b) (LiteralExpr v)) b"
| "buildExpr (IdentifierExpr name) b = buildIdentifier name b"
| "buildExpr (CallExpr callee args) b =
     do {
       (function, b1) \<leftarrow> buildExpr callee b;
       (argv, b2) \<leftarrow> buildExprs args b1;
       (result, b3) \<leftarrow>
         (if \<not> Equals (GetExprType (b_analyzer b) (CallExpr callee args)) VoidType
          then map_option (\<lambda>(v, b'). (Some v, b'))
                 (currentFunc_NewTemp (GetExprType (b_analyzer b) (CallExpr callee args)) b2)
          else Some (None, b2));
       f \<leftarrow> function;
       (if list_all (\<lambda>a. a \<noteq> None) argv
        then do {
               b4 \<leftarrow> currentBlock_AddInstruction (Call result f (map the argv)) b3;
               Some (result, b4)
             }
        else None)
     }"
| "buildExpr (AssignmentExpr target operator v) b =
     do {
       (x, b1) \<leftarrow> buildExpr v b;
       (case assignment_target target b1 of
          None \<Rightarrow> Some (x, b1)
        | Some t \<Rightarrow>
            do {
              y \<leftarrow> x;
              b2 \<leftarrow> currentBlock_AddInstruction (Copy t y) b1;
              Some (Some t, b2)
            })
     }"
| "buildExpr (IndexExpr object index) b = invalid_temp UnsupportedExpressionType b"
| "buildExpr (MemberExpr object member) b = invalid_temp UnsupportedExpressionType b"
| "buildExpr (LogicalExpr left operator right) b = invalid_temp UnsupportedExpressionType b"
| "buildExpr (GroupingExpr e) b = invalid_temp UnsupportedExpressionType b"
| "buildExpr (ArrayLiteralExpr elementType elements) b =
     invalid_temp UnsupportedExpressionType b"
| "buildExpr (StructLiteralExpr typeName inits) b = invalid_temp UnsupportedExpressionType b"
| "buildExprs [] b = Some ([], b)"
| "buildExprs (arg # args) b =
     do {
       (v, b1) \<leftarrow> buildExpr arg b;
       (vs, b2) \<leftarrow> buildExprs args b1;
       Some (v # vs, b2)
     }"

text \<open>
  The fragment \<^verbatim>\<open>if !b.currentBlock.IsTerminated() { ...AddInstruction(&Jump{Target: t});
  ...AddSuccessor(t) }\<close> that closes the branches of an \<^verbatim>\<open>if\<close> and the body of a loop.
\<close>

definition jump_unless_terminated :: "block_ptr \<Rightarrow> builder \<Rightarrow> builder option" where
  "jump_unless_terminated target b =
     do {
       terminated \<leftarrow> currentBlock_IsTerminated b;
       (if \<not> terminated
        then do {
               b1 \<leftarrow> currentBlock_AddInstruction (Jump target) b;
               currentBlock_AddSuccessor target b1
             }
        else Some b)
     }"

definition buildReturn :: "expr option \<Rightarrow> builder \<Rightarrow> builder option" where
  "buildReturn v b =
     (case v of
        None \<Rightarrow> currentBlock_AddInstruction (Return None) b
      | Some e \<Rightarrow>
          do {
            (x, b1) \<leftarrow> buildExpr e b;
            currentBlock_AddInstruction (Return x) b1
          })"

text \<open>
  \<^verbatim>\<open>buildLocalVar\<close>: the loop over the declared names.  The type of the variable is
  \<^verbatim>\<open>types.Int\<close> whether a type is written or not.
\<close>

fun buildLocalVar :: "string list \<Rightarrow> expr option \<Rightarrow> builder \<Rightarrow> builder option" where
  "buildLocalVar [] initializer b = Some b"
| "buildLocalVar (name # names) initializer b =
     do {
       f \<leftarrow> currentFunc b;
       (case NewValue (next_address b) f name IntType ValueVariable of
          (alloca, f1) \<Rightarrow>
            do {
              b2 \<leftarrow>
                (case initializer of
                   None \<Rightarrow>
                     Some (b\<lparr>next_address := next_address b + 1,
                              currentFunc := Some (f1\<lparr>Locals := Locals f1 @ [alloca]\<rparr>),
                              namedValues := (namedValues b)(name \<mapsto> alloca)\<rparr>)
                 | Some e \<Rightarrow>
                     do {
                       (initValue, b1) \<leftarrow>
                         buildExpr e
                           (b\<lparr>next_address := next_address b + 1,
                              currentFunc := Some (f1\<lparr>Locals := Locals f1 @ [alloca]\<rparr>),
                              namedValues := (namedValues b)(name \<mapsto> alloca)\<rparr>);
                       v \<leftarrow> initValue;
                       currentBlock_AddInstruction (Copy alloca v) b1
                     });
              buildLocalVar names initializer b2
            })
     }"

fun buildStmt :: "stmt \<Rightarrow> builder \<Rightarrow> builder option"
  and buildStmts :: "stmt list \<Rightarrow> builder \<Rightarrow> builder option" where
  "buildStmt (ExprStmt expression) b = map_option snd (buildExpr expression b)"
| "buildStmt (BlockStmt statements) b = buildStmts statements b"
| "buildStmt (IfStmt condition thenBranch elseBranch) b =
     do {
       (cond, b1) \<leftarrow> buildExpr condition b;
       (thenBlock, b2) \<leftarrow> currentFunc_NewBasicBlockInFunc ''if.then'' b1;
       (endBlock, b3) \<leftarrow> currentFunc_NewBasicBlockInFunc ''if.end'' b2;
       (elseBlock, b4) \<leftarrow>
         (case elseBranch of
            Some e \<Rightarrow> currentFunc_NewBasicBlockInFunc ''if.else'' b3
          | None \<Rightarrow> Some (endBlock, b3));
       c \<leftarrow> cond;
       b5 \<leftarrow> currentBlock_AddInstruction (Branch c thenBlock elseBlock) b4;
       b6 \<leftarrow> currentBlock_AddSuccessor thenBlock b5;
       b7 \<leftarrow> currentBlock_AddSuccessor elseBlock b6;
       b8 \<leftarrow> buildStmts thenBranch (b7\<lparr>currentBlock := Some thenBlock\<rparr>);
       b9 \<leftarrow> jump_unless_terminated endBlock b8;
       b10 \<leftarrow>
         (case elseBranch of
            None \<Rightarrow> Some b9
          | Some e \<Rightarrow>
              do {
                b' \<leftarrow> buildStmt e (b9\<lparr>currentBlock := Some elseBlock\<rparr>);
                jump_unless_terminated endBlock b'
              });
       Some (b10\<lparr>currentBlock := Some endBlock\<rparr>)
     }"
| "buildStmt (WhileStmt condition body) b =
     do {
       (condBlock, b1) \<leftarrow> currentFunc_NewBasicBlockInFunc ''while.cond'' b;
       (bodyBlock, b2) \<leftarrow> currentFunc_NewBasicBlockInFunc ''while.body'' b1;
       (endBlock, b3) \<leftarrow> currentFunc_NewBasicBlockInFunc ''while.end'' b2;
       b4 \<leftarrow> currentBlock_AddInstruction (Jump condBlock)
              (b3\<lparr>breakTarget := Some endBlock, continueTarget := Some condBlock\<rparr>);
       b5 \<leftarrow> currentBlock_AddSuccessor condBlock b4;
       (cond, b6) \<leftarrow> buildExpr condition (b5\<lparr>currentBlock := Some condBlock\<rparr>);
       c \<leftarrow> cond;
       b7 \<leftarrow> currentBlock_AddInstruction (Branch c bodyBlock endBlock) b6;
       b8 \<leftarrow> currentBlock_AddSuccessor bodyBlock b7;
       b9 \<leftarrow> currentBlock_AddSuccessor endBlock b8;
       b10 \<leftarrow> buildStmts body (b9\<lparr>currentBlock := Some bodyBlock\<rparr>);
       b11 \<leftarrow> jump_unless_terminated condBlock b10;
       Some (b11\<lparr>breakTarget := breakTarget b, continueTarget := continueTarget b,
                  currentBlock := Some endBlock\<rparr>)
     }"
| "buildStmt (ForStmt init condition post body) b =
     do {
       b0 \<leftarrow> (case init of None \<Rightarrow> Some b | Some s \<Rightarrow> buildStmt s b);
       (condBlock, b1) \<leftarrow> currentFunc_NewBasicBlockInFunc ''for.cond'' b0;
       (bodyBlock, b2) \<leftarrow> currentFunc_NewBasicBlockInFunc ''for.body'' b1;
       (postBlock, b3) \<leftarrow> currentFunc_NewBasicBlockInFunc ''for.post'' b2;
       (endBlock, b4) \<leftarrow> currentFunc_NewBasicBlockInFunc ''for.end'' b3;
       b5 \<leftarrow> currentBlock_AddInstruction (Jump condBlock)
              (b4\<lparr>breakTarget := Some endBlock, continueTarget := Some postBlock\<rparr>);
       b6 \<leftarrow> currentBlock_AddSuccessor condBlock b5;
       b7 \<leftarrow>
         (case condition of
            Some e \<Rightarrow>
              do {
                (cond, b') \<leftarrow> buildExpr e (b6\<lparr>currentBlock := Some condBlock\<rparr>);
                c \<leftarrow> cond;
                currentBlock_AddInstruction (Branch c bodyBlock endBlock) b'
              }
          | None \<Rightarrow>
              currentBlock_AddInstruction (Jump bodyBlock) (b6\<lparr>currentBlock := Some condBlock\<rparr>));
       b8 \<leftarrow> currentBlock_AddSuccessor bodyBlock b7;
       b9 \<leftarrow> currentBlock_AddSuccessor endBlock b8;
       b10 \<leftarrow> buildStmts body (b9\<lparr>currentBlock := Some bodyBlock\<rparr>);
       b11 \<leftarrow> jump_unless_terminated postBlock b10;
       b12 \<leftarrow>
         (case post of
            None \<Rightarrow> Some (b11\<lparr>currentBlock := Some postBlock\<rparr>)
          | Some s \<Rightarrow> buildStmt s (b11\<lparr>currentBlock := Some postBlock\<rparr>));
       b13 \<leftarrow> currentBlock_AddInstruction (Jump condBlock) b12;
       b14 \<leftarrow> currentBlock_AddSuccessor condBlock b13;
       Some (b14\<lparr>breakTarget := breakTarget b0, continueTarget := continueTarget b0,
                  currentBlock := Some endBlock\<rparr>)
     }"
| "buildStmt (ReturnStmt v) b = buildReturn v b"
| "buildStmt BreakStmt b =
     (case breakTarget b of
        Some target \<Rightarrow> currentBlock_AddInstruction (Jump target) b
      | None \<Rightarrow> Some b)"
| "buildStmt ContinueStmt b =
     (case continueTarget b of
        Some target \<Rightarrow> currentBlock_AddInstruction (Jump target) b
      | None \<Rightarrow> Some b)"
| "buildStmt (SwitchStmt v cases) b = Some b"
| "buildStmt (VarDecl names typ initializer) b = buildLocalVar names initializer b"
| "buildStmts [] b = Some b"
| "buildStmts (inner # statements) b =
     do {
       b1 \<leftarrow> buildStmt inner b;
       buildStmts statements b1
     }"

text \<open>
  \<^verbatim>\<open>buildFunction\<close>.  The type assertion \<^verbatim>\<open>symbol.Type.(*types.FunctionType)\<close> panics on
  another type, and \<^verbatim>\<open>funcType.Parameters[i]\<close> panics when the declaration has more
  parameters than the type.  The parameters are new values at consecutive addresses.
\<close>

definition buildFunction :: "string \<Rightarrow> string list \<Rightarrow> stmt list option \<Rightarrow> builder \<Rightarrow> builder option"
  where
  "buildFunction name params body b =
     (case Lookup (b_analyzer b) name of
        None \<Rightarrow> Some (error FunctionSymbolNotFound b)
      | Some symbol \<Rightarrow>
          (case sym_Type symbol of
             FunctionType parameterTypes returnType \<Rightarrow>
               if length parameterTypes < length params then None
               else
                 let paramValues =
                       map (\<lambda>i. \<lparr>ptr = next_address b + i, ID = int i, Name = params ! i,
                                  Type = parameterTypes ! i, Kind = ValueParameter,
                                  Constant = ConstNone\<rparr>)
                         [0 ..< length params]
                 in (case NewFunction (blocks b) name paramValues returnType of
                       (h, f) \<Rightarrow>
                         do {
                           b2 \<leftarrow>
                             (case body of
                                None \<Rightarrow>
                                  Some (b\<lparr>next_address := next_address b + length params,
                                           blocks := h, currentFunc := Some f,
                                           currentBlock := Some (Entry f),
                                           namedValues :=
                                             foldl (\<lambda>m (n, v). m(n \<mapsto> v)) Map.empty
                                               (zip params paramValues)\<rparr>)
                              | Some statements \<Rightarrow>
                                  do {
                                    b1 \<leftarrow>
                                      buildStmts statements
                                        (b\<lparr>next_address := next_address b + length params,
                                           blocks := h, currentFunc := Some f,
                                           currentBlock := Some (Entry f),
                                           namedValues :=
                                             foldl (\<lambda>m (n, v). m(n \<mapsto> v)) Map.empty
                                               (zip params paramValues)\<rparr>);
                                    (if Equals returnType VoidType
                                     then do {
                                            terminated \<leftarrow> currentBlock_IsTerminated b1;
                                            (if \<not> terminated
                                             then currentBlock_AddInstruction (Return None) b1
                                             else Some b1)
                                          }
                                     else Some b1)
                                  });
                           f' \<leftarrow> currentFunc b2;
                           Some (b2\<lparr>b_module := AddFunction (b_module b2) f',
                                     currentFunc := None, currentBlock := None\<rparr>)
                         })
           | _ \<Rightarrow> None))"

fun buildGlobalVar :: "string list \<Rightarrow> builder \<Rightarrow> builder" where
  "buildGlobalVar [] b = b"
| "buildGlobalVar (name # names) b =
     buildGlobalVar names
       (case Lookup (b_analyzer b) name of
          None \<Rightarrow> b
        | Some symbol \<Rightarrow>
            b\<lparr>next_address := next_address b + 1,
               b_module :=
                 (b_module b)\<lparr>Globals :=
                   Globals (b_module b)
                   @ [\<lparr>ptr = next_address b, ID = int (length (Globals (b_module b))),
                        Name = name, Type = sym_Type symbol, Kind = ValueVariable,
                        Constant = ConstNone\<rparr>]\<rparr>,
               variables :=
                 (variables b)(name \<mapsto>
                   \<lparr>ptr = next_address b, ID = int (length (Globals (b_module b))),
                    Name = name, Type = sym_Type symbol, Kind = ValueVariable,
                    Constant = ConstNone\<rparr>)\<rparr>)"

fun buildDecl :: "decl \<Rightarrow> builder \<Rightarrow> builder option" where
  "buildDecl (FuncDecl name params body) b = buildFunction name params body b"
| "buildDecl (GlobalVarDecl names typ initializer) b = Some (buildGlobalVar names b)"
| "buildDecl (TypeDecl name) b = Some b"
| "buildDecl (StructDecl name) b = Some b"

fun buildDecls :: "decl list \<Rightarrow> builder \<Rightarrow> builder option" where
  "buildDecls [] b = Some b"
| "buildDecls (d # ds) b = do { b1 \<leftarrow> buildDecl d b; buildDecls ds b1 }"

text \<open>
  \<^verbatim>\<open>Build\<close>, from a new builder; the module and the errors it returns are the fields
  \<open>b_module\<close> and \<open>errors\<close> of the final state, the blocks of the module are in \<open>blocks\<close>.
\<close>

definition Build :: "nat \<Rightarrow> heap \<Rightarrow> analyzer \<Rightarrow> ast_file \<Rightarrow> builder option" where
  "Build a h an file =
     buildDecls (Decls file) ((NewBuilder a h an)\<lparr>b_module := NewModule (Package file)\<rparr>)"

text \<open>
  The invariant of the specification: in every block of the store, a terminator occurs only
  as the last instruction.
\<close>

definition terminator_only_last :: "basic_block \<Rightarrow> bool" where
  "terminator_only_last bb = list_all (\<lambda>i. \<not> is_terminator i) (butlast (Instructions bb))"

text \<open>
  The analyzed syntax trees of \<^verbatim>\<open>func f() int { return 1; return 2; }\<close>, of
  \<^verbatim>\<open>func f() { while (true) { break; } }\<close> and of
  \<^verbatim>\<open>func f() { while (true) { break; continue; } }\<close>.
\<close>

definition function_symbol :: "string \<Rightarrow> ty \<Rightarrow> symbol" where
  "function_symbol name t = \<lparr>sym_Name = name, sym_Kind = SymbolFunction, sym_Type = t\<rparr>"

definition two_returns_file :: ast_file where
  "two_returns_file =
     \<lparr>Package = ''p'',
      Decls = [FuncDecl ''f'' []
                 (Some [ReturnStmt (Some (LiteralExpr (ConstInt 1))),
                        ReturnStmt (Some (LiteralExpr (ConstInt 2)))])]\<rparr>"

definition two_returns_analyzer :: analyzer where
  "two_returns_analyzer =
     \<lparr>exprTypes = [LiteralExpr (ConstInt 1) \<mapsto> IntType, LiteralExpr (ConstInt 2) \<mapsto> IntType],
      globalScope = [''f'' \<mapsto> function_symbol ''f'' (FunctionType [] IntType)]\<rparr>"

definition break_loop_file :: ast_file where
  "break_loop_file =
     \<lparr>Package = ''p'',
      Decls = [FuncDecl ''f'' [] (Some [WhileStmt (LiteralExpr (ConstBool True)) [BreakStmt]])]\<rparr>"

definition break_continue_file :: ast_file where
  "break_continue_file =
     \<lparr>Package = ''p'',
      Decls = [FuncDecl ''f'' []
                 (Some [WhileStmt (LiteralExpr (ConstBool True)) [BreakStmt, ContinueStmt]])]\<rparr>"

definition loop_analyzer :: analyzer where
  "loop_analyzer =
     \<lparr>exprTypes = [LiteralExpr (ConstBool True) \<mapsto> BoolType],
      globalScope = [''f'' \<mapsto> function_symbol ''f'' (FunctionType [] VoidType)]\<rparr>"

section \<open>Properties: the type system\<close>

lemma Equals_fields_same:
  "Equals_fields fs fs = (\<forall>f \<in> set fs. Equals (snd f) (snd f))"
  by (induction fs) auto

lemma Equals_params_same:
  "Equals_params ps ps = (\<forall>p \<in> set ps. Equals p p)"
  by (induction ps) auto

lemma Equals_refl_iff: "Equals t t = (\<not> contains_invalid t)"
proof (induction t)
  case (StructType nm fs)
  have "\<And>f. f \<in> set fs \<Longrightarrow> Equals (snd f) (snd f) = (\<not> contains_invalid (snd f))"
    using StructType by (auto simp: snds.simps)
  then show ?case by (auto simp: Equals_fields_same)
next
  case (FunctionType ps r)
  then show ?case by (auto simp: Equals_params_same)
qed auto

lemma Equals_sym_aux:
  "Equals a b \<Longrightarrow> Equals b a"
  "length fs = length gs \<Longrightarrow> Equals_fields fs gs \<Longrightarrow> Equals_fields gs fs"
  "length ps = length qs \<Longrightarrow> Equals_params ps qs \<Longrightarrow> Equals_params qs ps"
proof (induction a b and fs gs and ps qs rule: Equals_Equals_fields_Equals_params.induct)
  case (10 nm fs other)
  then show ?case by (cases other) (auto split: if_splits)
next
  case (11 ps r other)
  then show ?case by (cases other) (auto split: if_splits)
next
  case (13 f fs gs)
  then show ?case by (cases gs) (auto split: if_splits)
next
  case (15 p ps qs)
  then show ?case by (cases qs) (auto split: if_splits)
qed (auto split: ty.splits)



lemma Equals_Invalid_right: "\<not> Equals t InvalidType"
  by (cases t) auto

lemma AssignableTo_Invalid_right: "\<not> AssignableTo t InvalidType"
  by (cases t) auto

lemma AssignableTo_refl_iff:
  "AssignableTo t t = (t \<noteq> VoidType \<and> t \<noteq> NilType \<and> \<not> contains_invalid t)"
proof (cases t)
  case InvalidType then show ?thesis by simp
next
  case VoidType then show ?thesis by simp
next
  case NilType then show ?thesis by simp
qed (simp_all only: AssignableTo.simps Equals_refl_iff, simp_all)

lemma Equals_ArrayE:
  assumes "Equals (ArrayType e n) b"
  obtains e' where "b = ArrayType e' n" and "Equals e e'"
  using assms by (cases b) auto

lemma Equals_StructE:
  assumes "Equals (StructType nm fs) b"
  obtains nm' fs' where "b = StructType nm' fs'"
    and "if nm \<noteq> [] \<and> nm' \<noteq> [] then nm = nm'
         else length fs = length fs' \<and> Equals_fields fs fs'"
  using assms by (cases b) (auto split: if_splits)

lemma Equals_FunctionE:
  assumes "Equals (FunctionType ps r) b"
  obtains ps' r' where "b = FunctionType ps' r'" and "Equals r r'"
    and "length ps = length ps'" and "Equals_params ps ps'"
  using assms by (cases b) (auto split: if_splits)

lemma Equals_fields_trans:
  assumes "\<And>f b c. f \<in> set fs \<Longrightarrow> Equals (snd f) b \<Longrightarrow> Equals b c
             \<Longrightarrow> same_naming (snd f) b \<Longrightarrow> same_naming b c \<Longrightarrow> Equals (snd f) c"
    and "length fs = length gs" and "length gs = length hs"
    and "Equals_fields fs gs" and "Equals_fields gs hs"
    and "same_naming_fields fs gs" and "same_naming_fields gs hs"
  shows "Equals_fields fs hs"
  using assms
proof (induction fs arbitrary: gs hs)
  case Nil
  then show ?case by simp
next
  case (Cons f fs)
  obtain g gs' where gs: "gs = g # gs'" using Cons.prems(2) by (cases gs) auto
  obtain h hs' where hs: "hs = h # hs'" using Cons.prems(3) gs by (cases hs) auto
  have fg: "fst f = fst g" "Equals (snd f) (snd g)" "Equals_fields fs gs'"
    using Cons.prems(4) gs by (auto split: if_splits)
  have gh: "fst g = fst h" "Equals (snd g) (snd h)" "Equals_fields gs' hs'"
    using Cons.prems(5) gs hs by (auto split: if_splits)
  have nfg: "same_naming (snd f) (snd g)" "same_naming_fields fs gs'"
    using Cons.prems(6) gs by simp_all
  have ngh: "same_naming (snd g) (snd h)" "same_naming_fields gs' hs'"
    using Cons.prems(7) gs hs by simp_all
  have "Equals (snd f) (snd h)"
    using Cons.prems(1) [of f "snd g" "snd h"] fg(2) gh(2) nfg(1) ngh(1) by simp
  moreover have "Equals_fields fs hs'"
  proof (rule Cons.IH [of gs' hs'])
    fix f' b c
    assume "f' \<in> set fs" "Equals (snd f') b" "Equals b c" "same_naming (snd f') b"
      "same_naming b c"
    then show "Equals (snd f') c" using Cons.prems(1) [of f' b c] by simp
  qed (use Cons.prems(2,3) gs hs fg gh nfg ngh in simp_all)
  ultimately show ?case using fg gh hs by simp
qed

lemma Equals_params_trans:
  assumes "\<And>p b c. p \<in> set ps \<Longrightarrow> Equals p b \<Longrightarrow> Equals b c
             \<Longrightarrow> same_naming p b \<Longrightarrow> same_naming b c \<Longrightarrow> Equals p c"
    and "length ps = length qs" and "length qs = length rs"
    and "Equals_params ps qs" and "Equals_params qs rs"
    and "same_naming_params ps qs" and "same_naming_params qs rs"
  shows "Equals_params ps rs"
  using assms
proof (induction ps arbitrary: qs rs)
  case Nil
  then show ?case by simp
next
  case (Cons p ps)
  obtain q qs' where qs: "qs = q # qs'" using Cons.prems(2) by (cases qs) auto
  obtain r rs' where rs: "rs = r # rs'" using Cons.prems(3) qs by (cases rs) auto
  have pq: "Equals p q" "Equals_params ps qs'"
    using Cons.prems(4) qs by (auto split: if_splits)
  have qr: "Equals q r" "Equals_params qs' rs'"
    using Cons.prems(5) qs rs by (auto split: if_splits)
  have npq: "same_naming p q" "same_naming_params ps qs'"
    using Cons.prems(6) qs by simp_all
  have nqr: "same_naming q r" "same_naming_params qs' rs'"
    using Cons.prems(7) qs rs by simp_all
  have "Equals p r"
    using Cons.prems(1) [of p q r] pq(1) qr(1) npq(1) nqr(1) by simp
  moreover have "Equals_params ps rs'"
  proof (rule Cons.IH [of qs' rs'])
    fix p' b c
    assume "p' \<in> set ps" "Equals p' b" "Equals b c" "same_naming p' b" "same_naming b c"
    then show "Equals p' c" using Cons.prems(1) [of p' b c] by simp
  qed (use Cons.prems(2,3) qs rs pq qr npq nqr in simp_all)
  ultimately show ?case using rs by simp
qed

lemma Equals_trans_same_naming:
  "Equals a b \<Longrightarrow> Equals b c \<Longrightarrow> same_naming a b \<Longrightarrow> same_naming b c \<Longrightarrow> Equals a c"
proof (induction a arbitrary: b c)
  case (ArrayType e n)
  from ArrayType.prems(1) obtain e' where b: "b = ArrayType e' n" "Equals e e'"
    by (rule Equals_ArrayE)
  from ArrayType.prems(2) obtain e'' where c: "c = ArrayType e'' n" "Equals e' e''"
    unfolding b(1) by (rule Equals_ArrayE)
  show ?case using ArrayType.IH [of e' e''] ArrayType.prems(3,4) b c by simp
next
  case (StructType nm fs)
  from StructType.prems(1) obtain nm' fs' where b: "b = StructType nm' fs'"
    and ab: "if nm \<noteq> [] \<and> nm' \<noteq> [] then nm = nm'
             else length fs = length fs' \<and> Equals_fields fs fs'"
    by (rule Equals_StructE)
  from StructType.prems(2) obtain nm'' fs'' where c: "c = StructType nm'' fs''"
    and bc: "if nm' \<noteq> [] \<and> nm'' \<noteq> [] then nm' = nm''
             else length fs' = length fs'' \<and> Equals_fields fs' fs''"
    unfolding b by (rule Equals_StructE)
  have n1: "(nm = []) = (nm' = [])" "nm = [] \<longrightarrow> same_naming_fields fs fs'"
    using StructType.prems(3) b by simp_all
  have n2: "(nm' = []) = (nm'' = [])" "nm' = [] \<longrightarrow> same_naming_fields fs' fs''"
    using StructType.prems(4) b c by simp_all
  show ?case
  proof (cases "nm = []")
    case False
    then show ?thesis using ab bc n1(1) n2(1) c by simp
  next
    case True
    then have nms: "nm = []" "nm' = []" "nm'' = []" using n1(1) n2(1) by simp_all
    have "Equals_fields fs fs''"
    proof (rule Equals_fields_trans [where gs = fs'])
      fix f x y
      assume f: "f \<in> set fs" and "Equals (snd f) x" "Equals x y" "same_naming (snd f) x"
        "same_naming x y"
      moreover have "snd f \<in> Basic_BNFs.snds f" by (simp add: snds.simps)
      ultimately show "Equals (snd f) y"
        using StructType.IH [of f "snd f" x y] by simp
    qed (use ab bc nms n1(2) n2(2) in simp_all)
    then show ?thesis using ab bc nms c by simp
  qed
next
  case (FunctionType ps r)
  from FunctionType.prems(1) obtain ps' r' where b: "b = FunctionType ps' r'"
    "Equals r r'" "length ps = length ps'" "Equals_params ps ps'"
    by (rule Equals_FunctionE)
  from FunctionType.prems(2) obtain ps'' r'' where c: "c = FunctionType ps'' r''"
    "Equals r' r''" "length ps' = length ps''" "Equals_params ps' ps''"
    unfolding b(1) by (rule Equals_FunctionE)
  have n1: "same_naming r r'" "same_naming_params ps ps'"
    using FunctionType.prems(3) b(1) by simp_all
  have n2: "same_naming r' r''" "same_naming_params ps' ps''"
    using FunctionType.prems(4) b(1) c(1) by simp_all
  have "Equals r r''"
    using FunctionType.IH(2) [of r' r''] b(2) c(2) n1(1) n2(1) by simp
  moreover have "Equals_params ps ps''"
  proof (rule Equals_params_trans [where qs = ps'])
    fix p x y
    assume "p \<in> set ps" "Equals p x" "Equals x y" "same_naming p x" "same_naming x y"
    then show "Equals p y"
      using FunctionType.IH(1) [of p x y] by simp
  qed (use b c n1(2) n2(2) in simp_all)
  ultimately show ?case using b c by simp
next
  case InvalidType then show ?case by simp
next
  case VoidType then show ?case by (cases b) simp_all
next
  case IntType then show ?case by (cases b) simp_all
next
  case FloatType then show ?case by (cases b) simp_all
next
  case BoolType then show ?case by (cases b) simp_all
next
  case StringType then show ?case by (cases b) simp_all
next
  case CharType then show ?case by (cases b) simp_all
next
  case NilType then show ?case by (cases b) simp_all
qed

text \<open>
  Claim C5 as the source has it.  Write "\<^verbatim>\<open>Invalid\<close> is inspected in \<open>t\<close>" when \<^verbatim>\<open>Invalid\<close>
  occurs in \<open>t\<close> outside the fields of a named struct.  \<^verbatim>\<open>Equals\<close> is reflexive exactly on the
  types in which \<^verbatim>\<open>Invalid\<close> is not inspected, and symmetric on all types; it is transitive
  on every three types such that, wherever it compares two of their structs, both are named
  or both are anonymous; \<^verbatim>\<open>AssignableTo\<close> is reflexive exactly on the types other than
  \<^verbatim>\<open>Void\<close> and \<^verbatim>\<open>Nil\<close> in which \<^verbatim>\<open>Invalid\<close> is not inspected; \<^verbatim>\<open>Invalid\<close> is never equal and
  never assignable to any type, itself included, on either side.
\<close>

theorem type_laws:
  "(Equals a a = (\<not> contains_invalid a))
   \<and> (Equals a b \<longrightarrow> Equals b a)
   \<and> (Equals a b \<and> Equals b c \<and> same_naming a b \<and> same_naming b c \<longrightarrow> Equals a c)
   \<and> (AssignableTo a a = (a \<noteq> VoidType \<and> a \<noteq> NilType \<and> \<not> contains_invalid a))
   \<and> \<not> Equals InvalidType a \<and> \<not> Equals a InvalidType
   \<and> \<not> AssignableTo InvalidType a \<and> \<not> AssignableTo a InvalidType"
proof -
  have "Equals a b \<and> Equals b c \<and> same_naming a b \<and> same_naming b c \<longrightarrow> Equals a c"
    using Equals_trans_same_naming [of a b c] by blast
  moreover have "Equals a b \<longrightarrow> Equals b a"
    using Equals_sym_aux(1) [of a b] by blast
  ultimately show ?thesis
    using Equals_refl_iff [of a] AssignableTo_refl_iff [of a] Equals_Invalid_right [of a]
      AssignableTo_Invalid_right [of a]
    by simp
qed

text \<open>
  An instance: three function types with a named parameter and an anonymous result; the
  second differs from the first in the fields of the named struct only, the third from the
  second likewise.  A named struct with an \<^verbatim>\<open>Invalid\<close> field is equal and assignable to
  itself.
\<close>

theorem type_laws_witness:
  "Equals (FunctionType [StructType ''Point'' [(''x'', IntType)]] (StructType [] [(''v'', BoolType)]))
          (FunctionType [StructType ''Point'' []] (StructType [] [(''v'', BoolType)]))
   \<and> Equals (FunctionType [StructType ''Point'' []] (StructType [] [(''v'', BoolType)]))
            (FunctionType [StructType ''Point'' [(''y'', CharType)]]
               (StructType [] [(''v'', BoolType)]))
   \<and> Equals (FunctionType [StructType ''Point'' [(''x'', IntType)]] (StructType [] [(''v'', BoolType)]))
            (FunctionType [StructType ''Point'' [(''y'', CharType)]]
               (StructType [] [(''v'', BoolType)]))
   \<and> Equals (FunctionType [StructType ''Point'' []] (StructType [] [(''v'', BoolType)]))
            (FunctionType [StructType ''Point'' [(''x'', IntType)]]
               (StructType [] [(''v'', BoolType)]))
   \<and> AssignableTo (StructType ''Node'' [(''next'', InvalidType)])
                  (StructType ''Node'' [(''next'', InvalidType)])
   \<and> \<not> AssignableTo (StructType [] [(''next'', InvalidType)])
                    (StructType [] [(''next'', InvalidType)])"
  using type_laws [of "FunctionType [StructType ''Point'' [(''x'', IntType)]]
        (StructType [] [(''v'', BoolType)])"
      "FunctionType [StructType ''Point'' []] (StructType [] [(''v'', BoolType)])"
      "FunctionType [StructType ''Point'' [(''y'', CharType)]]
        (StructType [] [(''v'', BoolType)])"]
    type_laws [of "StructType ''Node'' [(''next'', InvalidType)]"]
    type_laws [of "StructType [] [(''next'', InvalidType)]"]
  by simp

text \<open>
  Claim C5 as stated fails.  \<^verbatim>\<open>Void\<close> and \<^verbatim>\<open>Nil\<close> are valid types that are not assignable
  to themselves; an array of \<^verbatim>\<open>Invalid\<close> is a type other than \<^verbatim>\<open>Invalid\<close> that is not equal
  to itself; and \<^verbatim>\<open>Equals\<close> compares a named struct with an anonymous one field by field, so
  that two differently named structs are both equal to the same anonymous struct without
  being equal to each other.
\<close>

theorem type_laws_counterexample:
  "VoidType \<noteq> InvalidType \<and> \<not> AssignableTo VoidType VoidType
   \<and> NilType \<noteq> InvalidType \<and> \<not> AssignableTo NilType NilType
   \<and> ArrayType InvalidType 3 \<noteq> InvalidType
   \<and> \<not> Equals (ArrayType InvalidType 3) (ArrayType InvalidType 3)
   \<and> Equals (StructType ''A'' [(''x'', IntType)]) (StructType [] [(''x'', IntType)])
   \<and> Equals (StructType [] [(''x'', IntType)]) (StructType ''B'' [(''x'', IntType)])
   \<and> \<not> Equals (StructType ''A'' [(''x'', IntType)]) (StructType ''B'' [(''x'', IntType)])"
  by simp

section \<open>Properties: the IR verifier\<close>

text \<open>
  Claim C1 against the source.  \<^verbatim>\<open>Verify\<close> accepts (returns no failure for) the lowering of
  \<^verbatim>\<open>while (true) { break; }\<close>, in which the successors of the loop body do not match its
  terminator; it accepts a function whose entry has a jump and no successor, and whose
  second block has no predecessor and two terminators; and it accepts a block that calls a
  \<^verbatim>\<open>Void\<close> function into a destination.  Each of the three modules breaks one of the checks
  that the specification lists.
\<close>

theorem Verify_accepts_violations:
  "Verify break_loop_heap (module_of [func_of ''f'' [0, 1, 2, 3]]) = Some []
   \<and> \<not> spec_successors_match (break_loop_heap ! 2)
   \<and> \<not> spec_module_ok break_loop_heap (module_of [func_of ''f'' [0, 1, 2, 3]])
   \<and> Verify orphan_heap (module_of [func_of ''f'' [0, 1]]) = Some []
   \<and> \<not> spec_successors_match (orphan_heap ! 0)
   \<and> Predecessors (orphan_heap ! 1) = []
   \<and> is_terminator (Instructions (orphan_heap ! 1) ! 0)
   \<and> \<not> spec_module_ok orphan_heap (module_of [func_of ''f'' [0, 1]])
   \<and> Verify void_call_heap (module_of [func_of ''f'' [0]]) = Some []
   \<and> \<not> list_all spec_call_ok (Instructions (void_call_heap ! 0))
   \<and> \<not> spec_module_ok void_call_heap (module_of [func_of ''f'' [0]])"
  by (simp add: Verify_def break_loop_heap_def orphan_heap_def void_call_heap_def module_of_def
      func_of_def block_of_def load_def IsTerminated_def Terminator_def is_terminator_def
      spec_successors_match_def spec_terminator_targets_def spec_module_ok_def
      spec_block_ok_def spec_call_ok_def)

text \<open>
  The two checks that \<^verbatim>\<open>Verify\<close> does make: a block whose last instruction is not a
  terminator and an entry block with a predecessor are reported.
\<close>

lemma Verify_reports_unterminated:
  "Verify [block_of ''entry'' [Return None, Copy (temp 1 1) (temp 2 2)] [] [0] 0]
          (module_of [func_of ''f'' [0]])
     = Some [NoTerminator ''entry'' ''f'', EntryHasPredecessors ''f'']"
  by (simp add: Verify_def module_of_def func_of_def block_of_def load_def IsTerminated_def
      Terminator_def is_terminator_def)

section \<open>Properties: successor and predecessor links\<close>

lemma AddSuccessor_present:
  "bb < length h \<Longrightarrow> s \<in> set (Successors (h ! bb)) \<Longrightarrow> AddSuccessor h bb s = Some h"
  by (simp add: AddSuccessor_def)

lemma AddSuccessor_absent:
  assumes "bb < length h" "s < length h" "s \<notin> set (Successors (h ! bb))"
  shows "\<exists>h'. AddSuccessor h bb s = Some h' \<and> length h' = length h
    \<and> (\<forall>b < length h. Successors (h' ! b) =
          (if b = bb then Successors (h ! bb) @ [s] else Successors (h ! b)))
    \<and> (\<forall>b < length h. Predecessors (h' ! b) =
          (if b = s then Predecessors (h ! s) @ [bb] else Predecessors (h ! b)))"
proof -
  define h1 where "h1 = h[bb := (h ! bb)\<lparr>Successors := Successors (h ! bb) @ [s]\<rparr>]"
  define h' where "h' = h1[s := (h1 ! s)\<lparr>Predecessors := Predecessors (h1 ! s) @ [bb]\<rparr>]"
  have eq: "AddSuccessor h bb s = Some h'"
    using assms by (simp add: AddSuccessor_def h'_def h1_def Let_def)
  have len: "length h' = length h" by (simp add: h'_def h1_def)
  have succs: "Successors (h' ! b) =
        (if b = bb then Successors (h ! bb) @ [s] else Successors (h ! b))"
    if "b < length h" for b
    using that assms by (simp add: h'_def h1_def nth_list_update)
  have preds: "Predecessors (h' ! b) =
        (if b = s then Predecessors (h ! s) @ [bb] else Predecessors (h ! b))"
    if "b < length h" for b
    using that assms by (simp add: h'_def h1_def nth_list_update)
  have "AddSuccessor h bb s = Some h' \<and> length h' = length h
    \<and> (\<forall>b < length h. Successors (h' ! b) =
          (if b = bb then Successors (h ! bb) @ [s] else Successors (h ! b)))
    \<and> (\<forall>b < length h. Predecessors (h' ! b) =
          (if b = s then Predecessors (h ! s) @ [bb] else Predecessors (h ! b)))"
    using eq len succs preds by simp
  then show ?thesis by (rule exI)
qed

lemma cfg_consistentD:
  assumes "cfg_consistent h" "b < length h"
  shows "distinct (Successors (h ! b))" "distinct (Predecessors (h ! b))"
    "x \<in> set (Successors (h ! b)) \<Longrightarrow> x < length h"
    "x \<in> set (Successors (h ! b)) \<Longrightarrow> b \<in> set (Predecessors (h ! x))"
    "x \<in> set (Predecessors (h ! b)) \<Longrightarrow> x < length h"
    "x \<in> set (Predecessors (h ! b)) \<Longrightarrow> b \<in> set (Successors (h ! x))"
proof -
  note c = assms(1) [unfolded cfg_consistent_def, rule_format, OF assms(2)]
  show "distinct (Successors (h ! b))" using c by blast
  show "distinct (Predecessors (h ! b))" using c by blast
  show "x \<in> set (Successors (h ! b)) \<Longrightarrow> x < length h" using c by blast
  show "x \<in> set (Successors (h ! b)) \<Longrightarrow> b \<in> set (Predecessors (h ! x))" using c by blast
  show "x \<in> set (Predecessors (h ! b)) \<Longrightarrow> x < length h" using c by blast
  show "x \<in> set (Predecessors (h ! b)) \<Longrightarrow> b \<in> set (Successors (h ! x))" using c by blast
qed

lemma AddSuccessor_keeps_consistent:
  assumes "cfg_consistent h" "bb < length h" "s < length h"
  shows "\<exists>h'. AddSuccessor h bb s = Some h' \<and> cfg_consistent h' \<and> length h' = length h
           \<and> s \<in> set (Successors (h' ! bb))"
proof (cases "s \<in> set (Successors (h ! bb))")
  case True
  then show ?thesis using assms by (simp add: AddSuccessor_present)
next
  case False
  from AddSuccessor_absent [OF assms(2,3) False] obtain h' where
    h': "AddSuccessor h bb s = Some h'" "length h' = length h"
    and succs_all: "\<forall>b < length h. Successors (h' ! b) =
        (if b = bb then Successors (h ! bb) @ [s] else Successors (h ! b))"
    and preds_all: "\<forall>b < length h. Predecessors (h' ! b) =
        (if b = s then Predecessors (h ! s) @ [bb] else Predecessors (h ! b))"
    by (elim exE conjE)
  have succs: "Successors (h' ! b) =
        (if b = bb then Successors (h ! bb) @ [s] else Successors (h ! b))"
    if "b < length h" for b using succs_all that by simp
  have preds: "Predecessors (h' ! b) =
        (if b = s then Predecessors (h ! s) @ [bb] else Predecessors (h ! b))"
    if "b < length h" for b using preds_all that by simp
  have nope: "bb \<notin> set (Predecessors (h ! s))"
    using cfg_consistentD(6) [OF assms(1,3), of bb] False by blast
  have "cfg_consistent h'"
    unfolding cfg_consistent_def
  proof (intro allI impI conjI ballI)
    fix b assume b: "b < length h'"
    then have b': "b < length h" using h'(2) by simp
    note cb = cfg_consistentD [OF assms(1) b']
    have sb: "Successors (h' ! b) =
        (if b = bb then Successors (h ! bb) @ [s] else Successors (h ! b))"
      by (rule succs [OF b'])
    have pb: "Predecessors (h' ! b) =
        (if b = s then Predecessors (h ! s) @ [bb] else Predecessors (h ! b))"
      by (rule preds [OF b'])
    show "distinct (Successors (h' ! b))"
      unfolding sb using cb(1) False by auto
    show "distinct (Predecessors (h' ! b))"
      unfolding pb using cb(2) nope by auto
    { fix x assume x: "x \<in> set (Successors (h' ! b))"
      then have x': "x \<in> set (Successors (h ! b)) \<or> (b = bb \<and> x = s)"
        unfolding sb by (auto split: if_splits)
      then have xl: "x < length h" using cb(3) [of x] assms(3) by blast
      show "x < length h'" using xl h'(2) by simp
      have px: "Predecessors (h' ! x) =
        (if x = s then Predecessors (h ! s) @ [bb] else Predecessors (h ! x))"
        by (rule preds [OF xl])
      show "b \<in> set (Predecessors (h' ! x))"
        unfolding px using x' cb(4) [of x] by auto }
    { fix x assume x: "x \<in> set (Predecessors (h' ! b))"
      then have x': "x \<in> set (Predecessors (h ! b)) \<or> (b = s \<and> x = bb)"
        unfolding pb by (auto split: if_splits)
      then have xl: "x < length h" using cb(5) [of x] assms(2) by blast
      show "x < length h'" using xl h'(2) by simp
      have sx: "Successors (h' ! x) =
        (if x = bb then Successors (h ! bb) @ [s] else Successors (h ! x))"
        by (rule succs [OF xl])
      show "b \<in> set (Successors (h' ! x))"
        unfolding sx using x' cb(6) [of x] by auto }
  qed
  moreover have "s \<in> set (Successors (h' ! bb))" using succs [OF assms(2)] by simp
  ultimately have "AddSuccessor h bb s = Some h' \<and> cfg_consistent h' \<and> length h' = length h
           \<and> s \<in> set (Successors (h' ! bb))" using h' by simp
  then show ?thesis by (rule exI)
qed

lemma distinct_count_one: "distinct xs \<Longrightarrow> x \<in> set xs \<Longrightarrow> count_list xs x = 1"
  by (induction xs) auto

lemma consistent_counts:
  assumes "cfg_consistent h" "bb < length h" "s \<in> set (Successors (h ! bb))"
  shows "count_list (Successors (h ! bb)) s = 1 \<and> count_list (Predecessors (h ! s)) bb = 1"
proof -
  have "distinct (Successors (h ! bb))" and sl: "s < length h"
    and mem: "bb \<in> set (Predecessors (h ! s))"
    using assms unfolding cfg_consistent_def by blast+
  moreover have "distinct (Predecessors (h ! s))"
    using assms(1) sl unfolding cfg_consistent_def by blast
  ultimately show ?thesis using assms(3) by (simp add: distinct_count_one)
qed

lemma AddSuccessor_times_fixed:
  "bb < length h \<Longrightarrow> s \<in> set (Successors (h ! bb)) \<Longrightarrow> AddSuccessor_times n h bb s = Some h"
  by (induction n) (simp_all add: AddSuccessor_present)

lemma new_blocks_consistent: "cfg_consistent (map NewBasicBlock labels)"
  by (simp add: cfg_consistent_def NewBasicBlock_def)

text \<open>
  Claim C9.  In a store whose successor and predecessor lists are duplicate-free and mirror
  each other (as in every store built from \<^verbatim>\<open>NewBasicBlock\<close> and \<^verbatim>\<open>AddSuccessor\<close>), any
  positive number of calls \<^verbatim>\<open>b.AddSuccessor(s)\<close> succeeds and leaves \<open>s\<close> exactly once among
  the successors of \<open>b\<close> and \<open>b\<close> exactly once among the predecessors of \<open>s\<close>; the store
  stays consistent, equals the store after the first call, and a further call changes nothing.
\<close>

theorem AddSuccessor_idempotent_consistent:
  assumes "cfg_consistent h" "bb < length h" "s < length h" "0 < n"
  shows "\<exists>h'. AddSuccessor_times n h bb s = Some h'
           \<and> count_list (Successors (h' ! bb)) s = 1
           \<and> count_list (Predecessors (h' ! s)) bb = 1
           \<and> cfg_consistent h'
           \<and> AddSuccessor h bb s = Some h'
           \<and> AddSuccessor h' bb s = Some h'"
proof -
  from AddSuccessor_keeps_consistent [OF assms(1-3)] obtain h' where
    h': "AddSuccessor h bb s = Some h'" "cfg_consistent h'" "length h' = length h"
      "s \<in> set (Successors (h' ! bb))" by blast
  obtain m where n: "n = Suc m" using assms(4) by (cases n) auto
  have bl: "bb < length h'" using assms(2) h'(3) by simp
  have "AddSuccessor_times n h bb s = Some h'"
    using h'(1) AddSuccessor_times_fixed [OF bl h'(4)] by (simp add: n)
  moreover have "AddSuccessor h' bb s = Some h'"
    using AddSuccessor_present [OF bl h'(4)] .
  ultimately have "AddSuccessor_times n h bb s = Some h'
           \<and> count_list (Successors (h' ! bb)) s = 1
           \<and> count_list (Predecessors (h' ! s)) bb = 1
           \<and> cfg_consistent h'
           \<and> AddSuccessor h bb s = Some h'
           \<and> AddSuccessor h' bb s = Some h'"
    using consistent_counts [OF h'(2) bl h'(4)] h'(1,2) by simp
  then show ?thesis by (rule exI)
qed

theorem AddSuccessor_idempotent_consistent_witness:
  "\<exists>h'. AddSuccessor_times 3 [NewBasicBlock ''entry'', NewBasicBlock ''loop''] 1 1 = Some h'
      \<and> count_list (Successors (h' ! 1)) 1 = 1
      \<and> count_list (Predecessors (h' ! 1)) 1 = 1
      \<and> cfg_consistent h'"
proof -
  have c: "cfg_consistent [NewBasicBlock ''entry'', NewBasicBlock ''loop'']"
    using new_blocks_consistent [of "[''entry'', ''loop'']"] by simp
  have "\<exists>h'. AddSuccessor_times 3 [NewBasicBlock ''entry'', NewBasicBlock ''loop''] 1 1 = Some h'
           \<and> count_list (Successors (h' ! 1)) 1 = 1
           \<and> count_list (Predecessors (h' ! 1)) 1 = 1
           \<and> cfg_consistent h'
           \<and> AddSuccessor [NewBasicBlock ''entry'', NewBasicBlock ''loop''] 1 1 = Some h'
           \<and> AddSuccessor h' 1 1 = Some h'"
    by (rule AddSuccessor_idempotent_consistent [OF c]) simp_all
  then show ?thesis by (elim exE conjE) (intro exI conjI, assumption+)
qed

section \<open>Properties: constant folding\<close>

lemma foldBinaryOp_arith:
  assumes "getConstantValue left constants = Some (ConstInt l)"
    and "getConstantValue right constants = Some (ConstInt r)"
  shows "foldBinaryOpWithConstants a OpAdd dest left right constants
           = Some (Copy dest (int_constant a (l + r)))"
    and "foldBinaryOpWithConstants a OpSub dest left right constants
           = Some (Copy dest (int_constant a (l - r)))"
    and "foldBinaryOpWithConstants a OpMul dest left right constants
           = Some (Copy dest (int_constant a (l * r)))"
    and "foldBinaryOpWithConstants a OpDiv dest left right constants
           = (if r = 0 then None else Some (Copy dest (int_constant a (go_div l r))))"
    and "foldBinaryOpWithConstants a OpMod dest left right constants
           = (if r = 0 then None else Some (Copy dest (int_constant a (go_mod l r))))"
  using assms by (simp_all add: foldBinaryOpWithConstants_def)

text \<open>
  Claim C4 as the source has it.  A \<^verbatim>\<open>BinaryOp\<close> with operator \<open>+\<close>, \<open>-\<close>, \<open>*\<close>, \<open>/\<close> or \<open>%\<close>
  whose operands resolve to the integers \<open>l\<close> and \<open>r\<close> is replaced, in the block being folded,
  by a \<^verbatim>\<open>Copy\<close> of a new constant of type \<^verbatim>\<open>Int\<close> holding the wrapped sum, difference or
  product, the truncated quotient or its remainder, and the destination is recorded as a
  constant for the instructions that follow; for \<open>/\<close> and \<open>%\<close> with \<open>r = 0\<close> (whatever \<open>l\<close>
  is) the instruction stays as it is and nothing is recorded.
\<close>

theorem fold_arithmetic:
  assumes "op \<in> {OpAdd, OpSub, OpMul, OpDiv, OpMod}"
    and "getConstantValue left constants = Some (ConstInt l)"
    and "getConstantValue right constants = Some (ConstInt r)"
  shows "fold_instructions a (BinaryOp op dest left right # rest) constants =
     (if (op = OpDiv \<or> op = OpMod) \<and> r = 0
      then (case fold_instructions a rest constants of
              (a', rest', constants') \<Rightarrow> (a', BinaryOp op dest left right # rest', constants'))
      else
        let result =
              (if op = OpAdd then word_of_int (sint l + sint r)
               else if op = OpSub then word_of_int (sint l - sint r)
               else if op = OpMul then word_of_int (sint l * sint r)
               else if op = OpDiv then word_of_int (sgn (sint l) * sgn (sint r) * (\<bar>sint l\<bar> div \<bar>sint r\<bar>))
               else word_of_int (sgn (sint l) * (\<bar>sint l\<bar> mod \<bar>sint r\<bar>)));
            folded = Copy dest \<lparr>ptr = a, ID = -1, Name = [], Type = IntType,
                                 Kind = ValueConstant, Constant = ConstInt result\<rparr>
        in (case fold_instructions (Suc a) rest (constants(ptr dest \<mapsto> ConstInt result)) of
              (a', rest', constants') \<Rightarrow> (a', folded # rest', constants')))"
proof -
  note f = foldBinaryOp_arith [OF assms(2,3), of a dest]
  consider "op = OpAdd" | "op = OpSub" | "op = OpMul" | "op = OpDiv" | "op = OpMod"
    using assms(1) by auto
  then show ?thesis
  proof cases
    case 1
    then show ?thesis
      by (simp add: foldInstructionWithConstants_def f(1) record_constant_def int_constant_def
          IsConstant_def Let_def)
  next
    case 2
    then show ?thesis
      by (simp add: foldInstructionWithConstants_def f(2) record_constant_def int_constant_def
          IsConstant_def Let_def)
  next
    case 3
    then show ?thesis
      by (simp add: foldInstructionWithConstants_def f(3) record_constant_def int_constant_def
          IsConstant_def Let_def)
  next
    case 4
    then show ?thesis
      by (simp add: foldInstructionWithConstants_def f(4) record_constant_def int_constant_def
          IsConstant_def Let_def go_div_def signed_divide_int_def)
  next
    case 5
    then show ?thesis
      by (simp add: foldInstructionWithConstants_def f(5) record_constant_def int_constant_def
          IsConstant_def Let_def go_mod_def signed_modulo_int_def)
  qed
qed

theorem fold_arithmetic_witness:
  "fold_instructions 9 [BinaryOp OpDiv (temp 1 1) (const_int 2 (-7)) (const_int 3 2)] Map.empty
     = (10, [Copy (temp 1 1) (int_constant 9 (-3))], [1 \<mapsto> ConstInt (-3)])
   \<and> fold_instructions 9 [BinaryOp OpMod (temp 1 1) (const_int 2 (-7)) (const_int 3 0)] Map.empty
     = (9, [BinaryOp OpMod (temp 1 1) (const_int 2 (-7)) (const_int 3 0)], Map.empty)"
proof -
  have g: "getConstantValue (const_int 2 (-7)) Map.empty = Some (ConstInt (-7))"
    "getConstantValue (const_int 3 2) Map.empty = Some (ConstInt 2)"
    "getConstantValue (const_int 3 0) Map.empty = Some (ConstInt 0)"
    by (simp_all add: getConstantValue_def const_int_def IsConstant_def)
  have s: "sint (- 7 :: 64 word) = - 7" "sint (2 :: 64 word) = 2" by simp_all
  show ?thesis
    using fold_arithmetic [OF _ g(1) g(2), of OpDiv 9 "temp 1 1" "[]"]
      fold_arithmetic [OF _ g(1) g(3), of OpMod 9 "temp 1 1" "[]"]
    by (simp add: Let_def s int_constant_def temp_def)
qed

text \<open>
  Claim C4 as stated fails: with a zero left operand and a non-zero right operand the
  division and the remainder are folded, although one of the operands is zero.
\<close>

theorem fold_zero_dividend:
  "foldInstructionWithConstants 9 (BinaryOp OpDiv (temp 1 1) (const_int 2 0) (const_int 3 5))
      Map.empty
     = Some (Copy (temp 1 1) (int_constant 9 0))
   \<and> foldInstructionWithConstants 9 (BinaryOp OpMod (temp 1 1) (const_int 2 0) (const_int 3 5))
      Map.empty
     = Some (Copy (temp 1 1) (int_constant 9 0))
   \<and> fold_instructions 9 [BinaryOp OpDiv (temp 1 1) (const_int 2 0) (const_int 3 5)] Map.empty
     = (10, [Copy (temp 1 1) (int_constant 9 0)], [1 \<mapsto> ConstInt 0])"
  by (simp add: foldInstructionWithConstants_def foldBinaryOpWithConstants_def
      getConstantValue_def const_int_def IsConstant_def go_div_def go_mod_def
      signed_divide_int_def signed_modulo_int_def record_constant_def int_constant_def temp_def)

section \<open>Properties: dead-code elimination and the pass manager\<close>

lemma keeps_critical: "isCritical i \<Longrightarrow> keeps used i"
  by (simp add: keeps_def)

lemma filter_critical_keeps:
  "filter isCritical (filter (keeps used) xs) = filter isCritical xs"
  by (induction xs) (auto simp: keeps_critical)

lemma filter_keeps_critical:
  "filter (\<lambda>x. keeps used x \<and> isCritical x) xs = filter isCritical xs"
  by (induction xs) (auto simp: keeps_critical)

lemma remove_unused_blocks_frame:
  "remove_unused_blocks h bs used m = Some (m', h') \<Longrightarrow>
   length h' = length h
   \<and> (\<forall>p < length h.
         filter isCritical (Instructions (h' ! p)) = filter isCritical (Instructions (h ! p))
         \<and> Successors (h' ! p) = Successors (h ! p))"
proof (induction bs arbitrary: h m)
  case Nil
  then show ?case by simp
next
  case (Cons b bs)
  from Cons.prems have b: "b < length h"
    by (simp add: load_def split: if_splits)
  let ?h1 = "h[b := (h ! b)\<lparr>Instructions := filter (keeps used) (Instructions (h ! b))\<rparr>]"
  let ?m1 = "m \<or> list_ex (\<lambda>i. \<not> keeps used i) (Instructions (h ! b))"
  from Cons.prems b have r: "remove_unused_blocks ?h1 bs used ?m1 = Some (m', h')"
    by (simp add: load_def)
  note ih = Cons.IH [OF r]
  have len: "length h' = length h" using ih by simp
  have "filter isCritical (Instructions (h' ! p)) = filter isCritical (Instructions (h ! p))
         \<and> Successors (h' ! p) = Successors (h ! p)" if p: "p < length h" for p
  proof -
    have p1: "p < length ?h1" using p by simp
    have s: "filter isCritical (Instructions (?h1 ! p)) = filter isCritical (Instructions (h ! p))"
      "Successors (?h1 ! p) = Successors (h ! p)"
      using p b by (simp_all add: nth_list_update filter_keeps_critical)
    show ?thesis using ih p1 s by simp
  qed
  then show ?case using len by simp
qed

lemma dce_round_frame:
  assumes "dce_round h fn = Some (m, h', fn')"
  shows "length h' = length h"
    and "p < length h \<Longrightarrow>
         filter isCritical (Instructions (h' ! p)) = filter isCritical (Instructions (h ! p))"
    and "set (Blocks fn') \<subseteq> set (Blocks fn)"
proof -
  from assms obtain used m1 h1 m2 where
    u: "removeUnusedInstructions h fn used = Some (m1, h1)"
    and r: "removeUnreachableBlocks h1 fn = Some (m2, h', fn')"
    by (auto simp: dce_round_def split: option.splits prod.splits)
  note f1 = remove_unused_blocks_frame [OF u [unfolded removeUnusedInstructions_def]]
  from removeUnreachableBlocks_SomeD [OF r] obtain reachable where
    c: "if m2 then renumber h1 (filter (\<lambda>block. block \<in> reachable) (Blocks fn)) 0 = Some h'
                     \<and> fn' = fn\<lparr>Blocks := filter (\<lambda>block. block \<in> reachable) (Blocks fn)\<rparr>
            else h' = h1 \<and> fn' = fn"
    by (elim exE conjE)
  have f2: "length h' = length h1 \<and> (\<forall>p < length h1. Instructions (h' ! p) = Instructions (h1 ! p))"
  proof (cases m2)
    case True
    then have "renumber h1 (filter (\<lambda>block. block \<in> reachable) (Blocks fn)) 0 = Some h'"
      using c by simp
    from renumber_keeps [OF this] show ?thesis by simp
  next
    case False
    then show ?thesis using c by simp
  qed
  show "length h' = length h" using f1 f2 by simp
  show "set (Blocks fn') \<subseteq> set (Blocks fn)" using c by (cases m2) auto
  assume "p < length h"
  then show "filter isCritical (Instructions (h' ! p)) = filter isCritical (Instructions (h ! p))"
    using f1 f2 by simp
qed

lemma closed_uptoI:
  "(\<And>x y. x \<in> R \<Longrightarrow> (x, y) \<in> successor_edges h \<Longrightarrow> y \<in> R \<or> y \<in> S) \<Longrightarrow> closed_upto h R S"
  unfolding closed_upto_def by blast

lemma closed_uptoD:
  "closed_upto h R S \<Longrightarrow> x \<in> R \<Longrightarrow> (x, y) \<in> successor_edges h \<Longrightarrow> y \<in> R \<or> y \<in> S"
  unfolding closed_upto_def by blast

lemma in_set_butlast_or_last:
  "stack \<noteq> [] \<Longrightarrow> y \<in> set stack \<Longrightarrow> y = last stack \<or> y \<in> set (butlast stack)"
proof -
  assume a: "stack \<noteq> []" "y \<in> set stack"
  have "stack = butlast stack @ [last stack]" using a(1) by simp
  then have "set stack = set (butlast stack) \<union> {last stack}"
    by (metis list.simps(15) set_append empty_set Un_insert_right sup_bot.right_neutral)
  then show ?thesis using a(2) by blast
qed

lemma set_stack_split:
  "stack \<noteq> [] \<Longrightarrow> set stack \<subseteq> insert (last stack) (set (butlast stack))"
  using in_set_butlast_or_last [of stack] by blast

lemma reach_closed:
  "reach h R stack = Some R' \<Longrightarrow> closed_upto h R (set stack) \<Longrightarrow>
   R \<subseteq> R' \<and> set stack \<subseteq> R' \<and> closed_upto h R' {}"
proof (induction h R stack rule: reach.induct)
  case (1 h reachable stack)
  show ?case
  proof (cases "stack = []")
    case True
    then have "R' = reachable" using "1.prems"(1) by (simp add: reach.simps [of h reachable "[]"])
    then show ?thesis using True "1.prems"(2) by simp
  next
    case ne: False
    define current where "current = last stack"
    define stack' where "stack' = butlast stack"
    have sp: "set stack \<subseteq> insert current (set stack')"
      unfolding current_def stack'_def by (rule set_stack_split [OF ne])
    show ?thesis
    proof (cases "current \<in> reachable")
      case True
      have r: "reach h reachable stack' = Some R'"
        using "1.prems"(1) ne True
        by (simp add: reach.simps [of h reachable stack] current_def stack'_def Let_def)
      have c: "closed_upto h reachable (set stack')"
      proof (rule closed_uptoI)
        fix x y
        assume x: "x \<in> reachable" and e: "(x, y) \<in> successor_edges h"
        have "y \<in> reachable \<or> y \<in> set stack" by (rule closed_uptoD [OF "1.prems"(2) x e])
        then show "y \<in> reachable \<or> y \<in> set stack'" using sp True by blast
      qed
      have ih: "reachable \<subseteq> R' \<and> set stack' \<subseteq> R' \<and> closed_upto h R' {}"
        using "1.IH"(1) [OF ne current_def stack'_def True r c] .
      have "set stack \<subseteq> R'" using sp ih True by blast
      then show ?thesis using ih by simp
    next
      case nr: False
      have lt: "current < length h"
        using "1.prems"(1) ne nr
        by (auto simp: reach.simps [of h reachable stack] current_def stack'_def Let_def
            split: if_splits)
      define stack2 where "stack2 = stack' @ filter (\<lambda>succ. succ \<notin> insert current reachable)
                        (Successors (h ! current))"
      have r: "reach h (insert current reachable) stack2 = Some R'"
        using "1.prems"(1) ne nr lt
        by (simp add: reach.simps [of h reachable stack] current_def stack'_def stack2_def Let_def)
      have c: "closed_upto h (insert current reachable) (set stack2)"
      proof (rule closed_uptoI)
        fix x y
        assume x: "x \<in> insert current reachable" and e: "(x, y) \<in> successor_edges h"
        show "y \<in> insert current reachable \<or> y \<in> set stack2"
        proof (cases "x = current")
          case True
          then have "y \<in> set (Successors (h ! current))"
            using e by (simp add: successor_edges_def)
          then show ?thesis unfolding stack2_def by auto
        next
          case False
          then have xr: "x \<in> reachable" using x by simp
          have "y \<in> reachable \<or> y \<in> set stack" by (rule closed_uptoD [OF "1.prems"(2) xr e])
          then have "y \<in> reachable \<or> y = current \<or> y \<in> set stack'" using sp by blast
          then show ?thesis by (auto simp: stack2_def)
        qed
      qed
      have nlt: "\<not> \<not> current < length h" using lt by simp
      have ih: "insert current reachable \<subseteq> R' \<and> set stack2 \<subseteq> R' \<and> closed_upto h R' {}"
        using "1.IH"(2) [OF ne current_def stack'_def nr nlt r [unfolded stack2_def]
            c [unfolded stack2_def]]
        unfolding stack2_def .
      have s2: "set stack' \<subseteq> set stack2" by (simp add: stack2_def)
      have "set stack \<subseteq> R'" using sp ih s2 by blast
      then show ?thesis using ih by simp
    qed
  qed
qed

lemma closed_path:
  assumes "closed_upto h R {}" and "a \<in> R" and "has_path h a b"
  shows "b \<in> R"
proof -
  have "(a, b) \<in> rtrancl (successor_edges h)" using assms(3) by (simp add: has_path_def)
  then show ?thesis
  proof (induction rule: rtrancl_induct)
    case base
    then show ?case by (rule assms(2))
  next
    case (step y z)
    have "z \<in> R \<or> z \<in> {}" by (rule closed_uptoD [OF assms(1) step.IH step.hyps(2)])
    then show ?case by simp
  qed
qed

lemma reach_complete:
  assumes "reach h {} [entry] = Some R" and "has_path h entry p"
  shows "p \<in> R"
proof -
  have c: "closed_upto h {} (set [entry])" by (simp add: closed_upto_def)
  have k: "{} \<subseteq> R \<and> set [entry] \<subseteq> R \<and> closed_upto h R {}"
    by (rule reach_closed [OF assms(1) c])
  have e: "entry \<in> R" using k by simp
  have cl: "closed_upto h R {}" using k by simp
  show ?thesis by (rule closed_path [OF cl e assms(2)])
qed

lemma successor_edges_cong:
  assumes "length h' = length h" and "\<forall>p < length h. Successors (h' ! p) = Successors (h ! p)"
  shows "successor_edges h' = successor_edges h"
  using assms unfolding successor_edges_def by auto

lemma dce_round_reachable:
  assumes "dce_round h fn = Some (m, h', fn')"
  shows "successor_edges h' = successor_edges h"
    and "Entry fn' = Entry fn"
    and "p \<in> set (Blocks fn) \<Longrightarrow> has_path h (Entry fn) p \<Longrightarrow> p \<in> set (Blocks fn')"
proof -
  from assms obtain used m1 h1 m2 where
    u: "removeUnusedInstructions h fn used = Some (m1, h1)"
    and r: "removeUnreachableBlocks h1 fn = Some (m2, h', fn')"
    by (auto simp: dce_round_def split: option.splits prod.splits)
  note f1 = remove_unused_blocks_frame [OF u [unfolded removeUnusedInstructions_def]]
  have e1: "successor_edges h1 = successor_edges h"
    by (rule successor_edges_cong) (use f1 in simp_all)
  have "\<exists>reachable. reach h1 {} [Entry fn] = Some reachable
          \<and> m2 = list_ex (\<lambda>block. block \<notin> reachable) (Blocks fn)
          \<and> (if m2 then renumber h1 (filter (\<lambda>block. block \<in> reachable) (Blocks fn)) 0 = Some h'
                     \<and> fn' = fn\<lparr>Blocks := filter (\<lambda>block. block \<in> reachable) (Blocks fn)\<rparr>
              else h' = h1 \<and> fn' = fn)"
    by (rule removeUnreachableBlocks_SomeD [OF r])
  then obtain reachable where
    re: "reach h1 {} [Entry fn] = Some reachable"
    and c: "if m2 then renumber h1 (filter (\<lambda>block. block \<in> reachable) (Blocks fn)) 0 = Some h'
                     \<and> fn' = fn\<lparr>Blocks := filter (\<lambda>block. block \<in> reachable) (Blocks fn)\<rparr>
            else h' = h1 \<and> fn' = fn"
    by (elim exE conjE)
  have e2: "successor_edges h' = successor_edges h1"
  proof (cases m2)
    case True
    then have "renumber h1 (filter (\<lambda>block. block \<in> reachable) (Blocks fn)) 0 = Some h'"
      using c by simp
    from renumber_keeps [OF this] show ?thesis
      by (intro successor_edges_cong) simp_all
  next
    case False
    then show ?thesis using c by simp
  qed
  show "successor_edges h' = successor_edges h" using e1 e2 by simp
  show "Entry fn' = Entry fn" using c by (cases m2) simp_all
  assume p: "p \<in> set (Blocks fn)" and path: "has_path h (Entry fn) p"
  have "has_path h1 (Entry fn) p" using path e1 by (simp add: has_path_def)
  then have "p \<in> reachable" by (rule reach_complete [OF re])
  then show "p \<in> set (Blocks fn')" using c p by (cases m2) simp_all
qed

lemma dce_Run_keeps_reachable:
  "dce_Run h fn = Some (h', fn') \<Longrightarrow> p \<in> set (Blocks fn) \<Longrightarrow> has_path h (Entry fn) p
   \<Longrightarrow> p \<in> set (Blocks fn')"
proof (induction h fn rule: dce_Run.induct)
  case (1 h fn)
  from "1.prems"(1) obtain m h1 fn1 where r: "dce_round h fn = Some (m, h1, fn1)"
    by (cases "dce_round h fn") (auto simp: dce_Run.simps [of h fn])
  note f = dce_round_reachable [OF r]
  have p1: "p \<in> set (Blocks fn1)" by (rule f(3) [OF "1.prems"(2) "1.prems"(3)])
  show ?case
  proof (cases m)
    case True
    then have run: "dce_Run h1 fn1 = Some (h', fn')"
      using "1.prems"(1) r by (simp add: dce_Run.simps [of h fn])
    have path: "has_path h1 (Entry fn1) p"
      using "1.prems"(3) f(1) f(2) by (simp add: has_path_def)
    show ?thesis using "1.IH" [OF r _ _ True run p1 path] by simp
  next
    case False
    then have "h' = h1 \<and> fn' = fn1"
      using "1.prems"(1) r by (simp add: dce_Run.simps [of h fn])
    then show ?thesis using p1 by simp
  qed
qed

lemma dce_Run_frame:
  "dce_Run h fn = Some (h', fn') \<Longrightarrow>
   length h' = length h \<and> set (Blocks fn') \<subseteq> set (Blocks fn)
   \<and> (\<forall>p < length h.
         filter isCritical (Instructions (h' ! p)) = filter isCritical (Instructions (h ! p)))"
proof (induction h fn rule: dce_Run.induct)
  case (1 h fn)
  from "1.prems" obtain m h1 fn1 where r: "dce_round h fn = Some (m, h1, fn1)"
    by (cases "dce_round h fn") (auto simp: dce_Run.simps [of h fn])
  note f = dce_round_frame [OF r]
  show ?case
  proof (cases m)
    case True
    then have run: "dce_Run h1 fn1 = Some (h', fn')"
      using "1.prems" r by (simp add: dce_Run.simps [of h fn])
    have ih: "length h' = length h1 \<and> set (Blocks fn') \<subseteq> set (Blocks fn1)
       \<and> (\<forall>p < length h1.
         filter isCritical (Instructions (h' ! p)) = filter isCritical (Instructions (h1 ! p)))"
      using "1.IH" [OF r _ _ True run] by simp
    show ?thesis using ih f by auto
  next
    case False
    then have "h' = h1 \<and> fn' = fn1"
      using "1.prems" r by (simp add: dce_Run.simps [of h fn])
    then show ?thesis using f by simp
  qed
qed

text \<open>
  Claim C6 as the source has it.  When \<^verbatim>\<open>DeadCodeEliminationPass.Run\<close> returns, the store
  has as many blocks as before and the blocks of the function are among the blocks it had
  before; every block of the store, so every block the function keeps, holds the same
  critical instructions (\<^verbatim>\<open>Store\<close>, \<^verbatim>\<open>Call\<close>, \<^verbatim>\<open>Return\<close>, \<^verbatim>\<open>Branch\<close>, \<^verbatim>\<open>Jump\<close>) as before, in
  the same order; and every block of the function that has a path from the entry block
  along \<^verbatim>\<open>Successors\<close> lists is still a block of the function.  So the critical instructions
  of a block with a path from the entry are all kept, and a critical instruction leaves the
  function only with its whole block, a block without path from the entry.
\<close>

theorem dce_keeps_critical:
  "dce_Run h fn = Some (h', fn') \<Longrightarrow>
   length h' = length h \<and> set (Blocks fn') \<subseteq> set (Blocks fn)
   \<and> (\<forall>p < length h.
         filter isCritical (Instructions (h' ! p)) = filter isCritical (Instructions (h ! p)))
   \<and> (\<forall>p \<in> set (Blocks fn). has_path h (Entry fn) p \<longrightarrow> p \<in> set (Blocks fn'))"
proof -
  assume r: "dce_Run h fn = Some (h', fn')"
  have a: "length h' = length h \<and> set (Blocks fn') \<subseteq> set (Blocks fn)
   \<and> (\<forall>p < length h.
         filter isCritical (Instructions (h' ! p)) = filter isCritical (Instructions (h ! p)))"
    by (rule dce_Run_frame [OF r])
  have b: "\<forall>p \<in> set (Blocks fn). has_path h (Entry fn) p \<longrightarrow> p \<in> set (Blocks fn')"
  proof (intro ballI impI)
    fix p
    assume "p \<in> set (Blocks fn)" and "has_path h (Entry fn) p"
    then show "p \<in> set (Blocks fn')" by (rule dce_Run_keeps_reachable [OF r])
  qed
  show ?thesis using a b by simp
qed

theorem dce_keeps_critical_witness:
  "dce_Run stale_pred_heap (func_of ''f'' [0, 1, 2])
     = Some ([block_of ''entry'' [Jump 2] [2] [] 0,
              block_of ''dead'' [Jump 2] [2] [] 1,
              block_of ''join'' [Return None] [] [0, 1] 1],
             func_of ''f'' [0, 2])
   \<and> has_path stale_pred_heap (Entry (func_of ''f'' [0, 1, 2])) 2
   \<and> 2 \<in> set (Blocks (func_of ''f'' [0, 2]))
   \<and> filter isCritical
         (Instructions ([block_of ''entry'' [Jump 2] [2] [] 0,
                         block_of ''dead'' [Jump 2] [2] [] 1,
                         block_of ''join'' [Return None] [] [0, 1] 1] ! 2))
       = filter isCritical (Instructions (stale_pred_heap ! 2))"
proof -
  have r: "dce_Run stale_pred_heap (func_of ''f'' [0, 1, 2])
     = Some ([block_of ''entry'' [Jump 2] [2] [] 0,
              block_of ''dead'' [Jump 2] [2] [] 1,
              block_of ''join'' [Return None] [] [0, 1] 1],
             func_of ''f'' [0, 2])"
    by (simp add: stale_pred_heap_def func_of_def block_of_def dce_Run.simps dce_round_def
      markUsedValues_def load_def isCritical_def removeUnusedInstructions_def keeps_def
      removeUnreachableBlocks_def reach.simps Let_def)
  have e: "(0, 2) \<in> successor_edges stale_pred_heap"
    by (simp add: successor_edges_def stale_pred_heap_def block_of_def)
  have path: "has_path stale_pred_heap (Entry (func_of ''f'' [0, 1, 2])) 2"
    unfolding has_path_def using e by (simp add: func_of_def)
  have b: "(2::nat) \<in> set (Blocks (func_of ''f'' [0, 1, 2]))" by (simp add: func_of_def)
  have l: "(2::nat) < length stale_pred_heap" by (simp add: stale_pred_heap_def)
  show ?thesis using dce_keeps_critical [OF r] r path b l by blast
qed

text \<open>
  Claim C6 as stated fails: a \<^verbatim>\<open>Store\<close> and a \<^verbatim>\<open>Jump\<close> that are in the function before
  the pass are in none of its blocks afterwards, because their block is unreachable and is
  removed with them.
\<close>

theorem dce_removes_unreachable_store:
  "fn_instructions dead_store_heap (Blocks (func_of ''f'' [0, 1, 2]))
     = Some [Return (Some (const_int 5 1)),
             Store (var_named 6 0 ''x'') (const_int 7 2), Jump 2,
             Return (Some (const_int 8 2))]
   \<and> isCritical (Store (var_named 6 0 ''x'') (const_int 7 2))
   \<and> dce_Run dead_store_heap (func_of ''f'' [0, 1, 2]) = Some (dead_store_heap, func_of ''f'' [0])
   \<and> fn_instructions dead_store_heap (Blocks (func_of ''f'' [0]))
     = Some [Return (Some (const_int 5 1))]"
proof -
  have r: "dce_Run dead_store_heap (func_of ''f'' [0, 1, 2])
      = Some (dead_store_heap, func_of ''f'' [0])"
    by (simp add: dead_store_heap_def func_of_def block_of_def dce_Run.simps dce_round_def
      markUsedValues_def load_def isCritical_def removeUnusedInstructions_def keeps_def
      removeUnreachableBlocks_def reach.simps Let_def const_int_def var_named_def IsConstant_def
      markValue.simps)
  show ?thesis
    using r by (simp add: dead_store_heap_def func_of_def block_of_def load_def isCritical_def)
qed

lemma stale_pred_removed:
  "removeUnreachableBlocks stale_pred_heap (func_of ''f'' [0, 1, 2])
     = Some (True,
         [block_of ''entry'' [Jump 2] [2] [] 0,
          block_of ''dead'' [Jump 2] [2] [] 1,
          block_of ''join'' [Return None] [] [0, 1] 1],
         func_of ''f'' [0, 2])"
  by (simp add: stale_pred_heap_def func_of_def block_of_def removeUnreachableBlocks_def
      reach.simps Let_def load_def)

text \<open>
  Claim C10.  When \<^verbatim>\<open>removeUnreachableBlocks\<close> returns, the function differs from the old
  one in its block list only, which is a sublist of the old one; every block of the store
  keeps its label, instructions, successors, predecessors and dominated list, and a block
  that is not in the new block list is unchanged altogether (so only \<^verbatim>\<open>Index\<close> fields of
  surviving blocks are written).  The predecessors are not pruned: in the example the
  surviving block \<open>2\<close> still lists the deleted block \<open>1\<close> as a predecessor.
\<close>

theorem removeUnreachableBlocks_frame:
  "(removeUnreachableBlocks h fn = Some (m, h', fn') \<longrightarrow>
      fn' = fn\<lparr>Blocks := Blocks fn'\<rparr>
      \<and> (\<exists>reachable. Blocks fn' = filter (\<lambda>block. block \<in> reachable) (Blocks fn))
      \<and> length h' = length h
      \<and> (\<forall>p < length h.
            Instructions (h' ! p) = Instructions (h ! p)
            \<and> Successors (h' ! p) = Successors (h ! p)
            \<and> Predecessors (h' ! p) = Predecessors (h ! p)
            \<and> Label (h' ! p) = Label (h ! p)
            \<and> Dominated (h' ! p) = Dominated (h ! p)
            \<and> (p \<notin> set (Blocks fn') \<longrightarrow> h' ! p = h ! p)))
   \<and> (\<exists>h2 fn2. removeUnreachableBlocks stale_pred_heap (func_of ''f'' [0, 1, 2])
                   = Some (True, h2, fn2)
          \<and> 2 \<in> set (Blocks fn2) \<and> 1 \<notin> set (Blocks fn2) \<and> 1 \<in> set (Predecessors (h2 ! 2)))"
proof (intro conjI impI)
  assume a: "removeUnreachableBlocks h fn = Some (m, h', fn')"
  from removeUnreachableBlocks_SomeD [OF a] obtain reachable where
    mm: "m = list_ex (\<lambda>block. block \<notin> reachable) (Blocks fn)"
    and c: "if m then renumber h (filter (\<lambda>block. block \<in> reachable) (Blocks fn)) 0 = Some h'
                     \<and> fn' = fn\<lparr>Blocks := filter (\<lambda>block. block \<in> reachable) (Blocks fn)\<rparr>
            else h' = h \<and> fn' = fn"
    by (elim exE conjE)
  have all: "filter (\<lambda>block. block \<in> reachable) (Blocks fn) = Blocks fn" if "\<not> m"
    using that mm by (simp add: list_ex_iff filter_id_conv)
  have b: "Blocks fn' = filter (\<lambda>block. block \<in> reachable) (Blocks fn)"
    using c all by (cases m) simp_all
  show "fn' = fn\<lparr>Blocks := Blocks fn'\<rparr>" using c by (cases m) simp_all
  show "\<exists>reachable. Blocks fn' = filter (\<lambda>block. block \<in> reachable) (Blocks fn)"
    using b by (rule exI)
  have k: "length h' = length h
   \<and> (\<forall>p < length h. Instructions (h' ! p) = Instructions (h ! p)
        \<and> Successors (h' ! p) = Successors (h ! p)
        \<and> Predecessors (h' ! p) = Predecessors (h ! p)
        \<and> Label (h' ! p) = Label (h ! p)
        \<and> Dominated (h' ! p) = Dominated (h ! p)
        \<and> (p \<notin> set (Blocks fn') \<longrightarrow> h' ! p = h ! p))"
  proof (cases m)
    case True
    then have "renumber h (filter (\<lambda>block. block \<in> reachable) (Blocks fn)) 0 = Some h'"
      using c by simp
    from renumber_keeps [OF this] show ?thesis unfolding b .
  next
    case False
    then show ?thesis using c by simp
  qed
  show "length h' = length h" using k by (rule conjunct1)
  show "\<forall>p < length h.
            Instructions (h' ! p) = Instructions (h ! p)
            \<and> Successors (h' ! p) = Successors (h ! p)
            \<and> Predecessors (h' ! p) = Predecessors (h ! p)
            \<and> Label (h' ! p) = Label (h ! p)
            \<and> Dominated (h' ! p) = Dominated (h ! p)
            \<and> (p \<notin> set (Blocks fn') \<longrightarrow> h' ! p = h ! p)"
    using k by (rule conjunct2)
next
  have "2 \<in> set (Blocks (func_of ''f'' [0, 2])) \<and> 1 \<notin> set (Blocks (func_of ''f'' [0, 2]))
     \<and> 1 \<in> set (Predecessors ([block_of ''entry'' [Jump 2] [2] [] 0,
          block_of ''dead'' [Jump 2] [2] [] 1,
          block_of ''join'' [Return None] [] [0, 1] 1] ! 2))"
    by (simp add: func_of_def block_of_def)
  then show "\<exists>h2 fn2. removeUnreachableBlocks stale_pred_heap (func_of ''f'' [0, 1, 2])
                   = Some (True, h2, fn2)
          \<and> 2 \<in> set (Blocks fn2) \<and> 1 \<notin> set (Blocks fn2) \<and> 1 \<in> set (Predecessors (h2 ! 2))"
    using stale_pred_removed by blast
qed

theorem removeUnreachableBlocks_frame_witness:
  "removeUnreachableBlocks stale_pred_heap (func_of ''f'' [0, 1, 2])
     = Some (True,
         [block_of ''entry'' [Jump 2] [2] [] 0,
          block_of ''dead'' [Jump 2] [2] [] 1,
          block_of ''join'' [Return None] [] [0, 1] 1],
         func_of ''f'' [0, 2])
   \<and> Predecessors ([block_of ''entry'' [Jump 2] [2] [] 0,
          block_of ''dead'' [Jump 2] [2] [] 1,
          block_of ''join'' [Return None] [] [0, 1] (1::int)] ! 2)
       = Predecessors (stale_pred_heap ! 2)
   \<and> [block_of ''entry'' [Jump 2] [2] [] 0,
          block_of ''dead'' [Jump 2] [2] [] 1,
          block_of ''join'' [Return None] [] [0, 1] (1::int)] ! 1 = stale_pred_heap ! 1"
proof -
  note r = stale_pred_removed
  have l: "(2::nat) < length stale_pred_heap" "(1::nat) < length stale_pred_heap"
    by (simp_all add: stale_pred_heap_def)
  have n: "(1::nat) \<notin> set (Blocks (func_of ''f'' [0, 2]))" by (simp add: func_of_def)
  from removeUnreachableBlocks_frame [of stale_pred_heap "func_of ''f'' [0, 1, 2]" True
      "[block_of ''entry'' [Jump 2] [2] [] 0,
          block_of ''dead'' [Jump 2] [2] [] 1,
          block_of ''join'' [Return None] [] [0, 1] 1]" "func_of ''f'' [0, 2]"] r
  have f: "\<forall>p < length stale_pred_heap.
            Predecessors ([block_of ''entry'' [Jump 2] [2] [] 0,
          block_of ''dead'' [Jump 2] [2] [] 1,
          block_of ''join'' [Return None] [] [0, 1] 1] ! p) = Predecessors (stale_pred_heap ! p)
            \<and> (p \<notin> set (Blocks (func_of ''f'' [0, 2])) \<longrightarrow> [block_of ''entry'' [Jump 2] [2] [] 0,
          block_of ''dead'' [Jump 2] [2] [] 1,
          block_of ''join'' [Return None] [] [0, 1] 1] ! p = stale_pred_heap ! p)"
    by blast
  show ?thesis using r f l n by blast
qed











section \<open>Properties: the lexer\<close>

lemma match_mono: "current l \<le> current (snd (match l expected))"
  by (simp add: match_def split_beta)

lemma skipWhitespace_mono: "current l \<le> current (skipWhitespace l)"
proof (induction l rule: skipWhitespace.induct)
  case (1 l)
  show ?case
  proof (cases "isAtEnd l")
    case True
    then show ?thesis by (simp add: skipWhitespace.simps [of l])
  next
    case False
    note a = advance_mono [of l]
    show ?thesis
    proof (cases "peek l = 0x20 \<or> peek l = 0x0D \<or> peek l = 0x09")
      case True
      then show ?thesis
        using "1.IH"(1) [OF False True] a False by (simp add: skipWhitespace.simps [of l])
    next
      case ws: False
      show ?thesis
      proof (cases "peek l = 0x0A")
        case True
        then show ?thesis
          using "1.IH"(2) [OF False ws True] a False ws by (simp add: skipWhitespace.simps [of l])
      next
        case False
        then show ?thesis using \<open>\<not> isAtEnd l\<close> ws by (simp add: skipWhitespace.simps [of l])
      qed
    qed
  qed
qed

lemma skipWhitespace_atEnd: "isAtEnd l \<Longrightarrow> skipWhitespace l = l"
  by (simp add: skipWhitespace.simps [of l])

lemma scanIdentifier_loop_mono: "current l \<le> current (scanIdentifier_loop tab l)"
proof (induction tab l rule: scanIdentifier_loop.induct)
  case (1 tab l)
  show ?case
  proof (cases "\<not> isAtEnd l \<and> (isLetter tab (peek l) \<or> isDigit (peek l))")
    case True
    then show ?thesis
      using "1.IH" [OF True] advance_mono [of l] by (simp add: scanIdentifier_loop.simps [of tab l])
  next
    case False
    then show ?thesis by (auto simp: scanIdentifier_loop.simps [of tab l])
  qed
qed

lemma scanDigits_mono: "current l \<le> current (scanDigits l)"
proof (induction l rule: scanDigits.induct)
  case (1 l)
  show ?case
  proof (cases "\<not> isAtEnd l \<and> isDigit (peek l)")
    case True
    then show ?thesis
      using "1.IH" [OF True] advance_mono [of l] by (simp add: scanDigits.simps [of l])
  next
    case False
    then show ?thesis by (auto simp: scanDigits.simps [of l])
  qed
qed

lemma scanNumber_mono: "current l \<le> current (snd (scanNumber l))"
proof -
  define l1 where "l1 = scanDigits l"
  define l2 where "l2 = (if \<not> isAtEnd l1 \<and> peek l1 = 0x2E
                then (if peekNext l1 \<noteq> 0x2E \<and> isDigit (peekNext l1)
                      then scanDigits (snd (advance l1))
                      else l1)
                else l1)"
  define l4 where "l4 = snd (advance l2)"
  define l5 where "l5 = (if \<not> isAtEnd l4 \<and> (peek l4 = 0x2B \<or> peek l4 = 0x2D)
                            then snd (advance l4) else l4)"
  define l3 where "l3 = (if \<not> isAtEnd l2 \<and> (peek l2 = 0x65 \<or> peek l2 = 0x45)
                then if isAtEnd l5 \<or> \<not> isDigit (peek l5)
                     then l5\<lparr>current := current l2\<rparr>
                     else scanDigits l5
                else l2)"
  have r: "snd (scanNumber l) = l3"
    by (simp add: scanNumber_def Let_def l1_def l2_def l3_def l4_def l5_def)
  have 1: "current l \<le> current l1" unfolding l1_def by (rule scanDigits_mono)
  have 2: "current l1 \<le> current l2"
    unfolding l2_def
    using scanDigits_mono [of "snd (advance l1)"] advance_mono [of l1] by auto
  have 4: "current l2 \<le> current l4" unfolding l4_def by (rule advance_mono)
  have 5: "current l4 \<le> current l5" unfolding l5_def using advance_mono [of l4] by auto
  have 3: "current l2 \<le> current l3"
    unfolding l3_def using scanDigits_mono [of l5] 4 5 by auto
  show ?thesis unfolding r using 1 2 3 by linarith
qed

lemma scanString_mono: "current l \<le> current (snd (scanString l))"
proof (induction l rule: scanString.induct)
  case (1 l)
  show ?case
  proof (cases "isAtEnd l")
    case True
    then show ?thesis by (simp add: scanString.simps [of l])
  next
    case ne: False
    show ?thesis
    proof (cases "peek l = 0x22")
      case True
      then show ?thesis using ne advance_mono [of l] by (simp add: scanString.simps [of l] Let_def)
    next
      case q: False
      show ?thesis
      proof (cases "peek l = 0x0A")
        case True
        then show ?thesis using ne q by (simp add: scanString.simps [of l])
      next
        case n: False
        show ?thesis
        proof (cases "peek l = 0x5C")
          case True
          define l1 where "l1 = snd (advance l)"
          define l2 where "l2 = (if \<not> isAtEnd l1 then snd (advance l1) else l1)"
          have e: "scanString l = scanString l2"
            using ne q n True by (simp add: scanString.simps [of l] Let_def l1_def l2_def)
          have "current l \<le> current l2"
            unfolding l2_def l1_def using advance_mono [of l] advance_mono [of "snd (advance l)"]
            by auto
          moreover have "current l2 \<le> current (snd (scanString l2))"
            using "1.IH"(1) [OF _ q n True, of l1] ne unfolding l2_def l1_def by simp
          ultimately show ?thesis unfolding e by linarith
        next
          case False
          have e: "scanString l = scanString (snd (advance l))"
            using ne q n False by (simp add: scanString.simps [of l])
          show ?thesis
            unfolding e using "1.IH"(2) [OF _ q n False] ne advance_mono [of l] by simp
        qed
      qed
    qed
  qed
qed

lemma scanChar_mono: "current l \<le> current (snd (scanChar l))"
proof -
  define l1 where "l1 = (if peek l = 0x5C
                  then (let l2 = snd (advance l)
                        in if \<not> isAtEnd l2 then snd (advance l2) else l2)
                  else snd (advance l))"
  have 1: "current l \<le> current l1"
    unfolding l1_def using advance_mono [of l] advance_mono [of "snd (advance l)"]
    by (auto simp: Let_def)
  have "snd (scanChar l) = l \<or> snd (scanChar l) = l1 \<or> snd (scanChar l) = snd (advance l1)"
    by (simp add: scanChar_def Let_def l1_def)
  then show ?thesis using 1 advance_mono [of l1] by auto
qed

lemma scanLineComment_loop_mono: "current l \<le> current (scanLineComment_loop l)"
proof (induction l rule: scanLineComment_loop.induct)
  case (1 l)
  show ?case
  proof (cases "\<not> isAtEnd l \<and> peek l \<noteq> 0x0A")
    case True
    then show ?thesis
      using "1.IH" [OF True] advance_mono [of l] by (simp add: scanLineComment_loop.simps [of l])
  next
    case False
    then show ?thesis by (auto simp: scanLineComment_loop.simps [of l])
  qed
qed

lemma scanBlockComment_loop_mono:
  "current l \<le> current (snd (scanBlockComment_loop depth l))"
proof (induction depth l rule: scanBlockComment_loop.induct)
  case (1 depth l)
  show ?case
  proof (cases "\<not> isAtEnd l \<and> depth > 0")
    case False
    then show ?thesis by (auto simp: scanBlockComment_loop.simps [of depth l])
  next
    case go: True
    have two: "current l \<le> current (snd (advance (snd (advance l))))"
      using advance_mono [of l] advance_mono [of "snd (advance l)"] by linarith
    show ?thesis
    proof (cases "peek l = 0x2F \<and> peekNext l = 0x2A")
      case True
      then show ?thesis
        using "1.IH"(1) [OF go True] two go
        by (simp add: scanBlockComment_loop.simps [of depth l])
    next
      case op: False
      show ?thesis
      proof (cases "peek l = 0x2A \<and> peekNext l = 0x2F")
        case True
        then show ?thesis
          using "1.IH"(2) [OF go op True] two go op
          by (simp add: scanBlockComment_loop.simps [of depth l])
      next
        case False
        define l' where "l' = (if peek l = 0x0A
                 then l\<lparr>line := line l + 1, lineStart := current l + 1\<rparr> else l)"
        have c: "current l' = current l" by (simp add: l'_def)
        have e: "scanBlockComment_loop depth l = scanBlockComment_loop depth (snd (advance l'))"
          using go op False by (auto simp: scanBlockComment_loop.simps [of depth l] l'_def)
        have "current (snd (advance l')) \<le> current (snd (scanBlockComment_loop depth (snd (advance l'))))"
          using "1.IH"(3) [OF go op False] unfolding l'_def by simp
        then show ?thesis unfolding e using advance_mono [of l'] c by linarith
      qed
    qed
  qed
qed

lemma scanBlockComment_mono: "current l \<le> current (snd (scanBlockComment l))"
  using scanBlockComment_loop_mono [of l 1]
  by (simp add: scanBlockComment_def split_beta)

lemma match_source [simp]: "source (snd (match l expected)) = source l"
  by (simp add: match_def split_beta)

lemma skipWhitespace_source [simp]: "source (skipWhitespace l) = source l"
proof (induction l rule: skipWhitespace.induct)
  case (1 l)
  show ?case
  proof (cases "isAtEnd l")
    case True
    then show ?thesis by (simp add: skipWhitespace.simps [of l])
  next
    case False
    show ?thesis
    proof (cases "peek l = 0x20 \<or> peek l = 0x0D \<or> peek l = 0x09")
      case True
      then show ?thesis
        using "1.IH"(1) [OF False True] False by (simp add: skipWhitespace.simps [of l])
    next
      case ws: False
      show ?thesis
      proof (cases "peek l = 0x0A")
        case True
        then show ?thesis
          using "1.IH"(2) [OF False ws True] False ws by (simp add: skipWhitespace.simps [of l])
      next
        case False
        then show ?thesis using \<open>\<not> isAtEnd l\<close> ws by (simp add: skipWhitespace.simps [of l])
      qed
    qed
  qed
qed

lemma scanIdentifier_loop_source [simp]: "source (scanIdentifier_loop tab l) = source l"
proof (induction tab l rule: scanIdentifier_loop.induct)
  case (1 tab l)
  show ?case
  proof (cases "\<not> isAtEnd l \<and> (isLetter tab (peek l) \<or> isDigit (peek l))")
    case True
    then show ?thesis
      using "1.IH" [OF True] by (simp add: scanIdentifier_loop.simps [of tab l])
  next
    case False
    then show ?thesis by (auto simp: scanIdentifier_loop.simps [of tab l])
  qed
qed

lemma scanDigits_source [simp]: "source (scanDigits l) = source l"
proof (induction l rule: scanDigits.induct)
  case (1 l)
  show ?case
  proof (cases "\<not> isAtEnd l \<and> isDigit (peek l)")
    case True
    then show ?thesis
      using "1.IH" [OF True] by (simp add: scanDigits.simps [of l])
  next
    case False
    then show ?thesis by (auto simp: scanDigits.simps [of l])
  qed
qed

lemma scanNumber_source [simp]: "source (snd (scanNumber l)) = source l"
  by (simp add: scanNumber_def Let_def)

lemma scanString_source [simp]: "source (snd (scanString l)) = source l"
proof (induction l rule: scanString.induct)
  case (1 l)
  show ?case
  proof (cases "isAtEnd l")
    case True
    then show ?thesis by (simp add: scanString.simps [of l])
  next
    case ne: False
    show ?thesis
    proof (cases "peek l = 0x22")
      case True
      then show ?thesis using ne by (simp add: scanString.simps [of l] Let_def)
    next
      case q: False
      show ?thesis
      proof (cases "peek l = 0x0A")
        case True
        then show ?thesis using ne q by (simp add: scanString.simps [of l])
      next
        case n: False
        show ?thesis
        proof (cases "peek l = 0x5C")
          case True
          define l1 where "l1 = snd (advance l)"
          define l2 where "l2 = (if \<not> isAtEnd l1 then snd (advance l1) else l1)"
          have e: "scanString l = scanString l2"
            using ne q n True by (simp add: scanString.simps [of l] Let_def l1_def l2_def)
          have "source l2 = source l" unfolding l2_def l1_def by simp
          moreover have "source (snd (scanString l2)) = source l2"
            using "1.IH"(1) [OF _ q n True, of l1] ne unfolding l2_def l1_def by simp
          ultimately show ?thesis unfolding e by simp
        next
          case False
          have e: "scanString l = scanString (snd (advance l))"
            using ne q n False by (simp add: scanString.simps [of l])
          show ?thesis
            unfolding e using "1.IH"(2) [OF _ q n False] ne by simp
        qed
      qed
    qed
  qed
qed

lemma scanChar_source [simp]: "source (snd (scanChar l)) = source l"
  by (simp add: scanChar_def Let_def)

lemma scanLineComment_loop_source [simp]: "source (scanLineComment_loop l) = source l"
proof (induction l rule: scanLineComment_loop.induct)
  case (1 l)
  show ?case
  proof (cases "\<not> isAtEnd l \<and> peek l \<noteq> 0x0A")
    case True
    then show ?thesis
      using "1.IH" [OF True] by (simp add: scanLineComment_loop.simps [of l])
  next
    case False
    then show ?thesis by (auto simp: scanLineComment_loop.simps [of l])
  qed
qed

lemma scanBlockComment_loop_source [simp]:
  "source (snd (scanBlockComment_loop depth l)) = source l"
proof (induction depth l rule: scanBlockComment_loop.induct)
  case (1 depth l)
  show ?case
  proof (cases "\<not> isAtEnd l \<and> depth > 0")
    case False
    then show ?thesis by (auto simp: scanBlockComment_loop.simps [of depth l])
  next
    case go: True
    show ?thesis
    proof (cases "peek l = 0x2F \<and> peekNext l = 0x2A")
      case True
      then show ?thesis
        using "1.IH"(1) [OF go True] go
        by (simp add: scanBlockComment_loop.simps [of depth l])
    next
      case op: False
      show ?thesis
      proof (cases "peek l = 0x2A \<and> peekNext l = 0x2F")
        case True
        then show ?thesis
          using "1.IH"(2) [OF go op True] go op
          by (simp add: scanBlockComment_loop.simps [of depth l])
      next
        case False
        define l' where "l' = (if peek l = 0x0A
                 then l\<lparr>line := line l + 1, lineStart := current l + 1\<rparr> else l)"
        have c: "source l' = source l" by (simp add: l'_def)
        have e: "scanBlockComment_loop depth l = scanBlockComment_loop depth (snd (advance l'))"
          using go op False by (auto simp: scanBlockComment_loop.simps [of depth l] l'_def)
        have "source (snd (scanBlockComment_loop depth (snd (advance l')))) = source (snd (advance l'))"
          using "1.IH"(3) [OF go op False] unfolding l'_def by simp
        then show ?thesis unfolding e using c by simp
      qed
    qed
  qed
qed

definition follows :: "lexer \<Rightarrow> lexer \<Rightarrow> bool" where
  "follows l r = (current l \<le> current r \<and> source r = source l)"

lemma follows_refl [simp]: "follows l l"
  by (simp add: follows_def)

lemma follows_trans: "follows a b \<Longrightarrow> follows b c \<Longrightarrow> follows a c"
  by (auto simp: follows_def)

lemma follows_match [simp]: "follows l (snd (match l e))"
  by (simp add: follows_def match_mono)

lemma follows_match2 [simp]: "follows l (snd (match (snd (match l e)) e'))"
  by (rule follows_trans [OF follows_match follows_match])

lemma follows_scanIdentifier [simp]: "follows l (snd (scanIdentifier tab l))"
  by (simp add: follows_def scanIdentifier_def Let_def scanIdentifier_loop_mono)

lemma follows_scanNumber [simp]: "follows l (snd (scanNumber l))"
  by (simp add: follows_def scanNumber_mono)

lemma follows_scanString [simp]: "follows l (snd (scanString l))"
  by (simp add: follows_def scanString_mono)

lemma follows_scanChar [simp]: "follows l (snd (scanChar l))"
  by (simp add: follows_def scanChar_mono)

lemma follows_scanLineComment [simp]: "follows l (snd (scanLineComment (snd (match l e))))"
proof -
  have "follows (snd (match l e)) (snd (scanLineComment (snd (match l e))))"
    by (simp add: follows_def scanLineComment_def Let_def scanLineComment_loop_mono)
  then show ?thesis by (rule follows_trans [OF follows_match])
qed

lemma follows_scanBlockComment [simp]: "follows l (snd (scanBlockComment (snd (match l e))))"
proof -
  have "follows (snd (match l e)) (snd (scanBlockComment (snd (match l e))))"
    using scanBlockComment_loop_source [of 1 "snd (match l e)"]
    by (simp add: follows_def scanBlockComment_mono)
       (simp add: scanBlockComment_def split_beta)
  then show ?thesis by (rule follows_trans [OF follows_match])
qed

lemma snd_tok [simp]: "snd (tok l t s) = l"
  by (simp add: tok_def)

lemma NextToken_follows:
  assumes "\<not> isAtEnd (skipWhitespace l0)"
  shows "follows (snd (advance ((skipWhitespace l0)\<lparr>start := current (skipWhitespace l0)\<rparr>)))
           (snd (NextToken tab l0))"
proof -
  have ne: "\<not> isAtEnd ((skipWhitespace l0)\<lparr>start := current (skipWhitespace l0)\<rparr>)"
    using assms by (simp add: isAtEnd_def)
  show ?thesis
    unfolding NextToken_def Let_def
    by (simp add: ne split_beta del: One_nat_def)
qed

lemma exhausted_atEnd: "isAtEnd l \<Longrightarrow> exhausted l"
  by (simp add: exhausted_def skipWhitespace_atEnd)

lemma NextToken_exhausted:
  assumes "exhausted l"
  shows "tok_Type (fst (fst (NextToken tab l))) = TokenEOF"
    and "exhausted (snd (NextToken tab l))"
proof -
  define l2 where "l2 = (skipWhitespace l)\<lparr>start := current (skipWhitespace l)\<rparr>"
  have e: "isAtEnd l2" using assms by (simp add: l2_def exhausted_def isAtEnd_def)
  have n: "NextToken tab l = tok l2 TokenEOF []"
    using e unfolding NextToken_def Let_def l2_def by simp
  show "tok_Type (fst (fst (NextToken tab l))) = TokenEOF"
    unfolding n by (simp add: tok_def makeToken_def)
  show "exhausted (snd (NextToken tab l))"
    unfolding n using e by (simp add: exhausted_atEnd)
qed

lemma NextToken_progress:
  assumes "\<not> exhausted l"
  shows "length (source (snd (NextToken tab l))) - current (snd (NextToken tab l))
           < length (source l) - current l"
proof -
  define l1 where "l1 = skipWhitespace l"
  define l2 where "l2 = l1\<lparr>start := current l1\<rparr>"
  have ne1: "\<not> isAtEnd l1" using assms by (simp add: exhausted_def l1_def)
  then have ne2: "\<not> isAtEnd l2" by (simp add: l2_def isAtEnd_def)
  have f: "follows (snd (advance l2)) (snd (NextToken tab l))"
    using NextToken_follows [of l tab] assms
    by (simp add: exhausted_def l1_def l2_def)
  have a: "current l2 < current (snd (advance l2))"
    using advance_progress [OF ne2] by simp
  have b: "current l \<le> current l2"
    using skipWhitespace_mono [of l] by (simp add: l1_def l2_def)
  have s: "source (snd (NextToken tab l)) = source l"
    using f by (simp add: follows_def l2_def l1_def)
  have c: "current l < current (snd (NextToken tab l))"
    using f a b by (simp add: follows_def)
  have "\<not> isAtEnd l" using assms exhausted_atEnd [of l] by blast
  then have d: "current l < length (source l)" by (simp add: isAtEnd_def)
  show ?thesis unfolding s using c d by linarith
qed

lemma reaches_exhausted:
  "\<exists>n. n \<le> length (source l) - current l \<and> exhausted (lexer_after tab n l)"
proof (induction "length (source l) - current l" arbitrary: l rule: less_induct)
  case less
  show ?case
  proof (cases "exhausted l")
    case True
    have "0 \<le> length (source l) - current l \<and> exhausted (lexer_after tab 0 l)"
      using True by simp
    then show ?thesis by (rule exI)
  next
    case False
    define l' where "l' = snd (NextToken tab l)"
    have m: "length (source l') - current l' < length (source l) - current l"
      unfolding l'_def by (rule NextToken_progress [OF False])
    have "\<exists>n. n \<le> length (source l') - current l' \<and> exhausted (lexer_after tab n l')"
      by (rule less [OF m])
    then obtain n where n: "n \<le> length (source l') - current l'"
      and e: "exhausted (lexer_after tab n l')"
      by (elim exE conjE)
    have "Suc n \<le> length (source l) - current l \<and> exhausted (lexer_after tab (Suc n) l)"
      using n m e by (simp add: l'_def)
    then show ?thesis by (rule exI)
  qed
qed

lemma exhausted_stays: "exhausted l \<Longrightarrow> exhausted (lexer_after tab k l)"
proof (induction k arbitrary: l)
  case 0
  then show ?case by simp
next
  case (Suc k)
  have "exhausted (snd (NextToken tab l))" by (rule NextToken_exhausted(2) [OF Suc.prems])
  then show ?case using Suc.IH by simp
qed

lemma lexer_after_add: "lexer_after tab (n + k) l = lexer_after tab k (lexer_after tab n l)"
  by (induction n arbitrary: l) simp_all

lemma eof_forever:
  assumes "exhausted (lexer_after tab n l)" and "n \<le> m"
  shows "tok_Type (nth_token tab m l) = TokenEOF"
proof -
  have "lexer_after tab m l = lexer_after tab (m - n) (lexer_after tab n l)"
    using lexer_after_add [of tab n "m - n" l] assms(2) by simp
  then have "exhausted (lexer_after tab m l)"
    using exhausted_stays [OF assms(1), of tab "m - n"] by simp
  then show ?thesis unfolding nth_token_def by (rule NextToken_exhausted(1))
qed


text \<open>
  Claim C8.  Every function of the lexer is total: each loop is a recursion whose termination
  is proved above from the progress of \<^verbatim>\<open>advance\<close>.  From a new lexer on any source, there
  is a number \<open>n\<close> of calls, at most the length of the source in bytes, such that the call
  number \<open>n\<close> and every later call of \<^verbatim>\<open>NextToken\<close> return a token of type \<^verbatim>\<open>TokenEOF\<close>.
\<close>

theorem lexing_total:
  "\<exists>n. n \<le> length src \<and> (\<forall>m. n \<le> m \<longrightarrow> tok_Type (nth_token tab m (New src fname)) = TokenEOF)"
proof -
  have "\<exists>n. n \<le> length (source (New src fname)) - current (New src fname)
          \<and> exhausted (lexer_after tab n (New src fname))"
    by (rule reaches_exhausted)
  then obtain n where n: "n \<le> length src" and e: "exhausted (lexer_after tab n (New src fname))"
    by (auto simp: New_def)
  have "\<forall>m. n \<le> m \<longrightarrow> tok_Type (nth_token tab m (New src fname)) = TokenEOF"
    using eof_forever [OF e] by simp
  with n show ?thesis by (intro exI conjI)
qed

theorem lexing_total_witness:
  "length quoted_e_acute_plus = 6
   \<and> tok_Type (nth_token no_letters 6 (New quoted_e_acute_plus ''f'')) = TokenEOF
   \<and> tok_Type (nth_token no_letters 0 (New quoted_e_acute_plus ''f'')) = TokenString
   \<and> tok_Type (nth_token no_letters 1 (New quoted_e_acute_plus ''f'')) = TokenPlus
   \<and> tok_Type (nth_token no_letters 2 (New quoted_e_acute_plus ''f'')) = TokenEOF"
proof -
  have len: "length quoted_e_acute_plus = 6" by (simp add: quoted_e_acute_plus_def)
  have "\<exists>n. n \<le> length quoted_e_acute_plus
          \<and> (\<forall>m. n \<le> m \<longrightarrow>
                 tok_Type (nth_token no_letters m (New quoted_e_acute_plus ''f'')) = TokenEOF)"
    by (rule lexing_total)
  then obtain n where n: "n \<le> length quoted_e_acute_plus"
    and a: "\<forall>m. n \<le> m \<longrightarrow>
              tok_Type (nth_token no_letters m (New quoted_e_acute_plus ''f'')) = TokenEOF"
    by (elim exE conjE)
  have "n \<le> 6" using n len by simp
  then have six: "tok_Type (nth_token no_letters 6 (New quoted_e_acute_plus ''f'')) = TokenEOF"
    using a by simp
  have t0: "tok_Type (nth_token no_letters 0 (New quoted_e_acute_plus ''f'')) = TokenString"
    by code_simp
  have t1: "tok_Type (nth_token no_letters 1 (New quoted_e_acute_plus ''f'')) = TokenPlus"
    by code_simp
  have t2: "tok_Type (nth_token no_letters 2 (New quoted_e_acute_plus ''f'')) = TokenEOF"
    by code_simp
  show ?thesis using len six t0 t1 t2 by simp
qed

text \<open>
  Claim C2 against the source.  \<^verbatim>\<open>currentPosition\<close> computes the column as
  \<^verbatim>\<open>l.start - l.lineStart + 1\<close>, a difference of byte offsets.  In the text \<^verbatim>\<open>"e" +\<close> with an
  e acute, the token \<^verbatim>\<open>+\<close> starts at byte 5 of line 1 and four code points precede it, so its
  column is 5, and the lexer reports 6.  In a block comment over two lines,
  \<^verbatim>\<open>scanBlockComment\<close> moves \<^verbatim>\<open>line\<close> and \<^verbatim>\<open>lineStart\<close> before the token is made: the comment
  starts at byte 0, line 1, column 1, and the lexer reports line 2 and column -2.
\<close>

theorem token_position_violations:
  "Position (nth_token no_letters 1 (New quoted_e_acute_plus ''f''))
     = \<lparr>Filename = ''f'', Line = 1, Column = 6, Offset = 5\<rparr>
   \<and> Lexeme (nth_token no_letters 1 (New quoted_e_acute_plus ''f'')) = ''+''
   \<and> spec_column quoted_e_acute_plus 0 5 = 5
   \<and> Lexeme (nth_token no_letters 0 (New two_line_comment ''f'')) = two_line_comment
   \<and> tok_Type (nth_token no_letters 0 (New two_line_comment ''f'')) = TokenComment
   \<and> Position (nth_token no_letters 0 (New two_line_comment ''f''))
     = \<lparr>Filename = ''f'', Line = 2, Column = - 2, Offset = 0\<rparr>
   \<and> spec_column two_line_comment 0 0 = 1"
  by code_simp

section \<open>Properties: the IR builder\<close>

text \<open>
  The blocks that the builder produces for \<^verbatim>\<open>func f() { while (true) { break; } }\<close>, with 9
  as the first free address, are the blocks of \<open>break_loop_heap\<close>: the jump of \<^verbatim>\<open>break\<close> is
  added without \<^verbatim>\<open>AddSuccessor\<close>.
\<close>

lemma Build_break_loop:
  "map_option blocks (Build 9 [] loop_analyzer break_loop_file) = Some break_loop_heap
   \<and> map_option (\<lambda>b. Functions (b_module b)) (Build 9 [] loop_analyzer break_loop_file)
       = Some [(func_of ''f'' [0, 1, 2, 3])\<lparr>ReturnType := VoidType\<rparr>]
   \<and> map_option errors (Build 9 [] loop_analyzer break_loop_file) = Some []"
  by code_simp


text \<open>
  Claim C3 against the source.  \<^verbatim>\<open>buildStmt\<close> goes through the statements of a block
  without looking at \<^verbatim>\<open>IsTerminated\<close>, and \<^verbatim>\<open>buildReturn\<close> and the cases of \<^verbatim>\<open>break\<close> and
  \<^verbatim>\<open>continue\<close> append their terminator to the current block whatever it holds.  For
  \<^verbatim>\<open>func f() int { return 1; return 2; }\<close> the builder reports no error and the entry block
  holds two \<^verbatim>\<open>Return\<close> instructions; for \<^verbatim>\<open>func f() { while (true) { break; continue; } }\<close>
  the block of the loop body holds two \<^verbatim>\<open>Jump\<close> instructions.  In both, a terminator is
  followed by another instruction in the same block.
\<close>

theorem builder_emits_after_terminator:
  "map_option blocks (Build 0 [] two_returns_analyzer two_returns_file)
     = Some [block_of ''entry''
               [Return (Some (const_int 0 1)), Return (Some (const_int 1 2))] [] [] 0]
   \<and> map_option errors (Build 0 [] two_returns_analyzer two_returns_file) = Some []
   \<and> map_option (\<lambda>b. list_all terminator_only_last (blocks b))
         (Build 0 [] two_returns_analyzer two_returns_file) = Some False
   \<and> map_option blocks (Build 9 [] loop_analyzer break_continue_file)
     = Some [block_of ''entry'' [Jump 1] [1] [] 0,
             block_of ''while.cond'' [Branch (const_bool 9 True) 2 3] [2, 3] [0] 1,
             block_of ''while.body'' [Jump 3, Jump 1] [] [1] 2,
             block_of ''while.end'' [Return None] [] [1] 3]
   \<and> map_option errors (Build 9 [] loop_analyzer break_continue_file) = Some []
   \<and> map_option (\<lambda>b. list_all terminator_only_last (blocks b))
         (Build 9 [] loop_analyzer break_continue_file) = Some False"
  by code_simp

end
